theory Spec2Isabelle
  imports Main "HOL-Library.Extended_Nat"
begin

section \<open>Documents\<close>

text \<open>
  A document is a JSON value: what \<^verbatim>\<open>JSON.parse\<close> returns and what \<^verbatim>\<open>JSON.stringify\<close>
  writes without loss. Numbers are modelled as integers (every number below is
  integral). An object is the list of its properties in insertion order. JavaScript's
  \<^verbatim>\<open>undefined\<close> is not a document: a value that may be undefined is a \<open>json option\<close>,
  with \<open>None\<close> for undefined. HOL values have no identity, so two references to one
  JavaScript object are two equal values here.
\<close>

datatype json =
    JNull
  | JBool bool
  | JNum int
  | JStr string
  | JArr "json list"
  | JObj "(string \<times> json) list"

datatype error = TypeError | InvalidDocumentError

text \<open>JavaScript truthiness, as used by \<^verbatim>\<open>if (x)\<close> and \<^verbatim>\<open>!x\<close>.\<close>

fun truthy :: "json option \<Rightarrow> bool" where
  "truthy None = False"
| "truthy (Some JNull) = False"
| "truthy (Some (JBool b)) = b"
| "truthy (Some (JNum n)) = (n \<noteq> 0)"
| "truthy (Some (JStr s)) = (s \<noteq> [])"
| "truthy (Some (JArr xs)) = True"
| "truthy (Some (JObj fs)) = True"

section \<open>The Map of qulity's Collection\<close>

text \<open>
  A Collection extends the JavaScript \<^verbatim>\<open>Map\<close>: entries are kept in insertion order,
  \<^verbatim>\<open>set\<close> on a key that is present replaces the value in place and on a new key appends
  the entry, \<^verbatim>\<open>size\<close> is the number of entries.
\<close>

type_synonym 'v collection = "(string \<times> 'v) list"

definition Map_has :: "'v collection \<Rightarrow> string \<Rightarrow> bool" where
  "Map_has m k = (k \<in> fst ` set m)"

definition Map_get :: "'v collection \<Rightarrow> string \<Rightarrow> 'v option" where
  "Map_get m k = map_of m k"

fun Map_set :: "'v collection \<Rightarrow> string \<Rightarrow> 'v \<Rightarrow> 'v collection" where
  "Map_set [] k v = [(k, v)]"
| "Map_set ((k', v') # m) k v = (if k' = k then (k, v) # m else (k', v') # Map_set m k v)"

definition Map_delete :: "'v collection \<Rightarrow> string \<Rightarrow> 'v collection" where
  "Map_delete m k = filter (\<lambda>e. fst e \<noteq> k) m"

definition Map_size :: "'v collection \<Rightarrow> nat" where
  "Map_size m = length m"

section \<open>Cache strategies\<close>

text \<open>Properties of an object, as an insertion-ordered list: assignment and \<^verbatim>\<open>delete\<close>.\<close>

definition set_property :: "json \<Rightarrow> string \<Rightarrow> json \<Rightarrow> json" where
  "set_property d k v = (case d of JObj fs \<Rightarrow> JObj (Map_set fs k v) | _ \<Rightarrow> d)"

definition delete_property :: "json \<Rightarrow> string \<Rightarrow> json" where
  "delete_property d k = (case d of JObj fs \<Rightarrow> JObj (Map_delete fs k) | _ \<Rightarrow> d)"

definition has_property :: "json \<Rightarrow> string \<Rightarrow> bool" where
  "has_property d k = (case d of JObj fs \<Rightarrow> Map_has fs k | _ \<Rightarrow> False)"

text \<open>
  Modelled from the spec: the \<^verbatim>\<open>patch\<close> of the base class CacheStrategy
  (Structures/CacheStrategy.js is not among the sources). A cache entry is "a Document plus
  a last-write/last-read timestamp, held in the CacheStrategy's in-memory map", and the
  source's DataModel type names the field: \<^verbatim>\<open>_timestamp\<close>, "provided by the cache". The
  base \<^verbatim>\<open>patch\<close> admits unconditionally. \<open>now\<close> is the clock's reading at the call. Only
  an object carries the field here; an array's own properties are not part of a JSON value.
\<close>

definition CacheStrategy_patch ::
  "int \<Rightarrow> string \<Rightarrow> json \<Rightarrow> json collection \<Rightarrow> json collection" where
  "CacheStrategy_patch now keyContext document memoryStore =
     Map_set memoryStore keyContext (set_property document ''_timestamp'' (JNum now))"

text \<open>
  An eviction algorithm is called with the memory map, may change it, and returns whether
  the admission may proceed: a function from the map to the returned flag and the map it
  leaves behind.
\<close>

type_synonym evictionPolicy = "json collection \<Rightarrow> bool \<times> json collection"

text \<open>
  \<^verbatim>\<open>RestrictedCacheStrategy.patch\<close>. \<open>maxSize\<close> is a count or \<^verbatim>\<open>Infinity\<close>, an extended
  natural number. The conjunction short-circuits: the eviction algorithm runs only at
  capacity and for a key that is not in the map; when it returns false the method returns
  with the map as the algorithm left it.
\<close>

definition RestrictedCacheStrategy_patch ::
  "enat \<Rightarrow> evictionPolicy \<Rightarrow> int \<Rightarrow> string \<Rightarrow> json \<Rightarrow> json collection \<Rightarrow> json collection" where
  "RestrictedCacheStrategy_patch maxSize evictionAlgorithm now keyContext document memoryStore =
     (if maxSize \<noteq> \<infinity> \<and> maxSize \<le> enat (Map_size memoryStore) \<and> \<not> Map_has memoryStore keyContext
      then (case evictionAlgorithm memoryStore of
              (ok, memoryStore') \<Rightarrow>
                if \<not> ok then memoryStore'
                else CacheStrategy_patch now keyContext document memoryStore')
      else CacheStrategy_patch now keyContext document memoryStore)"

text \<open>A sequence of \<^verbatim>\<open>patch\<close> calls, each with its clock reading, key and document.\<close>

fun patch_all ::
  "enat \<Rightarrow> evictionPolicy \<Rightarrow> (int \<times> string \<times> json) list \<Rightarrow> json collection \<Rightarrow> json collection" where
  "patch_all maxSize ev [] memoryStore = memoryStore"
| "patch_all maxSize ev ((now, keyContext, document) # calls) memoryStore =
     patch_all maxSize ev calls
       (RestrictedCacheStrategy_patch maxSize ev now keyContext document memoryStore)"

text \<open>An eviction policy for the examples: drop the oldest entry, refuse on an empty map.\<close>

definition evict_first :: evictionPolicy where
  "evict_first m = (case m of [] \<Rightarrow> (False, []) | e # rest \<Rightarrow> (True, rest))"

definition refuse_new :: evictionPolicy where
  "refuse_new m = (False, m)"

text \<open>
  Algorithms that no eviction policy would be, yet functions the strategy accepts: they
  refuse, and leave the map with an entry more, or with its oldest entry gone.
\<close>

definition grow_refuse :: evictionPolicy where
  "grow_refuse m = (False, Map_set m ''junk'' JNull)"

definition drop_refuse :: evictionPolicy where
  "drop_refuse m = (False, tl m)"

section \<open>Path specifiers\<close>

text \<open>
  \<^verbatim>\<open>String.prototype.split(/\.+/g)\<close>, as \<^verbatim>\<open>Selection.join\<close> applies it to its field: the
  string is cut at every maximal run of dots; a leading or trailing run leaves an empty
  first or last segment, and the empty string gives one empty segment.
\<close>

fun split_dots :: "string \<Rightarrow> string list" where
  "split_dots [] = [[]]"
| "split_dots [c] = (if c = CHR ''.'' then [[], []] else [[c]])"
| "split_dots (c # d # cs) =
     (if c = CHR ''.''
      then (if d = CHR ''.'' then split_dots (d # cs) else [] # split_dots (d # cs))
      else (case split_dots (d # cs) of
              [] \<Rightarrow> [[c]]
            | w # ws \<Rightarrow> (c # w) # ws))"

section \<open>Selection\<close>

text \<open>
  The working map of a Selection is a Collection of documents. Each operator below takes
  the map (\<^verbatim>\<open>this.cache\<close>) and returns the map it leaves behind.
\<close>

text \<open>
  \<^verbatim>\<open>Selection.limit\<close>. The numbers are integers; \<open>amount = None\<close> is the call with one
  argument. \<^verbatim>\<open>!amount\<close> holds for an omitted amount and for 0. The loop visits the entries
  in order and counts every visited entry, whether deleted or not.
\<close>

fun limit_loop :: "int \<Rightarrow> int \<Rightarrow> int \<Rightarrow> string list \<Rightarrow> json collection \<Rightarrow> json collection" where
  "limit_loop extractionStartOffset amount pointer [] cache = cache"
| "limit_loop extractionStartOffset amount pointer (keyContext # rest) cache =
     limit_loop extractionStartOffset amount (pointer + 1) rest
       (if extractionStartOffset > pointer \<and> pointer \<ge> extractionStartOffset + amount
        then Map_delete cache keyContext else cache)"

definition limit :: "int \<Rightarrow> int option \<Rightarrow> json collection \<Rightarrow> json collection" where
  "limit extractionStartOffset amount cache =
     (case amount of
        None \<Rightarrow> limit_loop 0 extractionStartOffset 0 (map fst cache) cache
      | Some a \<Rightarrow>
          if a = 0 then limit_loop 0 extractionStartOffset 0 (map fst cache) cache
          else limit_loop extractionStartOffset a 0 (map fst cache) cache)"

text \<open>
  \<^verbatim>\<open>Selection.join\<close>. \<^verbatim>\<open>Generics.pathCast\<close> in its reading form is a parameter here
  (Generics.js is not among the sources): a function from a document and a path to the
  value found, undefined, or an error. A join strategy changes its first argument in
  place: it is a function to the new content of that document, and only an object or an
  array can be changed. The third component of the result lists the invocations of the
  strategy in order: the key of this Selection whose document was passed, and the key and
  the document of the other Selection. An error raised by the path reader ends the loop
  with the map as it is then.
\<close>

type_synonym pathReader = "json \<Rightarrow> string list \<Rightarrow> error + json option"

type_synonym joinStrategy = "json \<Rightarrow> string \<Rightarrow> json \<Rightarrow> json"

text \<open>\<^verbatim>\<open>typeof x === "object"\<close> for a value that is not null: an object or an array.\<close>

fun is_object :: "json \<Rightarrow> bool" where
  "is_object (JObj fs) = True"
| "is_object (JArr xs) = True"
| "is_object _ = False"

definition join_resolvedKeyPath :: "string option \<Rightarrow> string list option" where
  "join_resolvedKeyPath field =
     (case field of
        None \<Rightarrow> None
      | Some f \<Rightarrow> if f = [] then None else Some (split_dots f))"

definition join_fieldId ::
  "pathReader \<Rightarrow> string list option \<Rightarrow> string \<Rightarrow> json \<Rightarrow> error + json option" where
  "join_fieldId pathCast resolvedKeyPath index joinObject =
     (case resolvedKeyPath of
        Some path \<Rightarrow> pathCast joinObject path
      | None \<Rightarrow> Inr (Some (JStr index)))"

fun join_loop ::
  "pathReader \<Rightarrow> joinStrategy \<Rightarrow> string list option \<Rightarrow> json collection \<Rightarrow> json collection
     \<Rightarrow> (string \<times> string \<times> json) list
     \<Rightarrow> error option \<times> json collection \<times> (string \<times> string \<times> json) list" where
  "join_loop pathCast joinStrategy resolvedKeyPath [] cache calls = (None, cache, calls)"
| "join_loop pathCast joinStrategy resolvedKeyPath ((index, joinObject) # rest) cache calls =
     (case join_fieldId pathCast resolvedKeyPath index joinObject of
        Inl e \<Rightarrow> (Some e, cache, calls)
      | Inr (Some (JStr fieldId)) \<Rightarrow>
          (case Map_get cache fieldId of
             None \<Rightarrow> join_loop pathCast joinStrategy resolvedKeyPath rest cache calls
           | Some documentObject \<Rightarrow>
               if truthy (Some documentObject)
               then join_loop pathCast joinStrategy resolvedKeyPath rest
                      (Map_set cache fieldId
                         (if is_object documentObject
                          then joinStrategy documentObject index joinObject
                          else documentObject))
                      (calls @ [(fieldId, index, joinObject)])
               else join_loop pathCast joinStrategy resolvedKeyPath rest cache calls)
      | Inr _ \<Rightarrow> join_loop pathCast joinStrategy resolvedKeyPath rest cache calls)"

definition join ::
  "pathReader \<Rightarrow> json collection \<Rightarrow> json collection \<Rightarrow> joinStrategy \<Rightarrow> string option
     \<Rightarrow> error option \<times> json collection \<times> (string \<times> string \<times> json) list" where
  "join pathCast cache secondarySelection joinStrategy field =
     join_loop pathCast joinStrategy (join_resolvedKeyPath field) secondarySelection cache []"

text \<open>A join strategy for the examples: store the joined document under \<^verbatim>\<open>role\<close>.\<close>

definition merge_role :: joinStrategy where
  "merge_role documentObject index joinObject = set_property documentObject ''role'' joinObject"

section \<open>Generics\<close>

text \<open>
  Modelled from the spec: Generics.js is not among the sources; its four functions are
  modelled from the spec's PathResolver and data model sections.

  \<^verbatim>\<open>isDataModel\<close>: "a structured container (object or array), never a bare scalar".
\<close>

definition isDataModel :: "json \<Rightarrow> bool" where
  "isDataModel document = is_object document"

text \<open>
  Modelled from the spec: \<^verbatim>\<open>Generics.clone\<close>, the deep copy: it rebuilds every container
  of the document. Values carry no identity here, so the copy is equal to the original.
\<close>

fun clone :: "json \<Rightarrow> json" where
  "clone (JArr xs) = JArr (map clone xs)"
| "clone (JObj fs) = JObj (map (\<lambda>(k, v). (k, clone v)) fs)"
| "clone v = v"

text \<open>
  Modelled from the spec: \<^verbatim>\<open>Generics.resolveKeyPath\<close>. "Resolution is syntactic (split on
  a path-separator)": the root key is the first segment, the nested path the rest. The
  separator is the one \<^verbatim>\<open>Selection.join\<close> splits its field at.
\<close>

definition resolveKeyPath :: "string \<Rightarrow> string list" where
  "resolveKeyPath pathlike = split_dots pathlike"

text \<open>
  Modelled from the spec: the "non-negative integer index" among the segments of a path (a
  decimal numeral without a leading zero), and its value.
\<close>

definition is_digit :: "char \<Rightarrow> bool" where
  "is_digit c = (c \<in> set ''0123456789'')"

definition is_index :: "string \<Rightarrow> bool" where
  "is_index s = (s \<noteq> [] \<and> list_all is_digit s \<and> (length s = 1 \<or> hd s \<noteq> CHR ''0''))"

definition index_of :: "string \<Rightarrow> nat" where
  "index_of s = foldl (\<lambda>n c. 10 * n + (of_char c - 48)) 0 s"

text \<open>
  Modelled from the spec: \<^verbatim>\<open>Generics.pathCast(frame, path)\<close>, the reading form. "Reading
  walks the container one segment at a time, returning undefined-equivalent if any
  intermediate segment is absent"; "accessing through a non-container segment fails". With
  no segment left the frame itself is the result.
\<close>

fun pathCast_get :: "json \<Rightarrow> string list \<Rightarrow> error + json option" where
  "pathCast_get frame [] = Inr (Some frame)"
| "pathCast_get (JObj fs) (s # path) =
     (case Map_get fs s of
        None \<Rightarrow> Inr None
      | Some v \<Rightarrow> pathCast_get v path)"
| "pathCast_get (JArr xs) (s # path) =
     (if is_index s \<and> index_of s < length xs then pathCast_get (xs ! index_of s) path
      else Inr None)"
| "pathCast_get frame (s # path) = Inl InvalidDocumentError"

text \<open>
  Modelled from the spec: \<^verbatim>\<open>Generics.pathCast(frame, path, item)\<close>, the writing form,
  returning the frame with the item assigned. "Writing walks the same way but creates
  missing intermediate containers (object-shaped unless the next segment is a non-negative
  integer index, in which case it creates a sequence) before assigning the final segment";
  a "path write attempted through a non-container intermediate" is an InvalidDocumentError.
  An assignment past the end of an array fills the gap with null, as the serialized array
  has it; a segment of an array that is no index is outside a JSON value and is an error
  here. With an empty path the item must itself be a valid root document.
\<close>

definition new_container :: "string \<Rightarrow> json" where
  "new_container next_segment = (if is_index next_segment then JArr [] else JObj [])"

definition array_assign :: "json list \<Rightarrow> nat \<Rightarrow> json \<Rightarrow> json list" where
  "array_assign xs i v =
     (if i < length xs then xs[i := v] else xs @ replicate (i - length xs) JNull @ [v])"

fun pathCast_set :: "json \<Rightarrow> string list \<Rightarrow> json \<Rightarrow> error + json" where
  "pathCast_set frame [] item = (if isDataModel item then Inr item else Inl InvalidDocumentError)"
| "pathCast_set (JObj fs) [s] item = Inr (JObj (Map_set fs s item))"
| "pathCast_set (JObj fs) (s # s' # path) item =
     (case pathCast_set (case Map_get fs s of None \<Rightarrow> new_container s' | Some v \<Rightarrow> v)
             (s' # path) item of
        Inl e \<Rightarrow> Inl e
      | Inr v' \<Rightarrow> Inr (JObj (Map_set fs s v')))"
| "pathCast_set (JArr xs) [s] item =
     (if is_index s then Inr (JArr (array_assign xs (index_of s) item))
      else Inl InvalidDocumentError)"
| "pathCast_set (JArr xs) (s # s' # path) item =
     (if is_index s
      then (case pathCast_set (if index_of s < length xs then xs ! index_of s else new_container s')
                   (s' # path) item of
              Inl e \<Rightarrow> Inl e
            | Inr v' \<Rightarrow> Inr (JArr (array_assign xs (index_of s) v')))
      else Inl InvalidDocumentError)"
| "pathCast_set frame (s # path) item = Inl InvalidDocumentError"

section \<open>Connection\<close>

text \<open>
  Modelled from the spec: the Schema (Schema.js is not among the sources) "exposes a model
  (default Document shape)"; only the model is read here.
\<close>

record schema =
  model :: json

text \<open>
  Modelled from the spec: the strategies of Enumerations/CacheStrategy.js (not among the
  sources) as the spec's "tagged variant {Unbounded, Restricted(maxSize, evictionPolicy)}":
  \<^verbatim>\<open>CacheStrategy.managed()\<close>, the default, "admits every patch unconditionally"; the
  restricted strategy is the class above. The maintenance timer of the managed strategy is
  not modelled.
\<close>

datatype cacheStrategy = Managed | Restricted enat evictionPolicy

text \<open>
  The configuration options that the modelled methods read. The option \<^verbatim>\<open>cache\<close> holds
  the strategy; the methods read it through the getter \<^verbatim>\<open>cacheStrategyController\<close>.
\<close>

record configuration =
  cacheStrategyController :: cacheStrategy
  insertionCache :: bool
  utilityCache :: bool
  fetchAll :: "int option"
  unsafeAssumeCache :: bool
  dataSchema :: "schema option"
  defaults :: bool

text \<open>
  Modelled from the spec: the Compiler's statements (Structures/Compiler.js is not among
  the sources) over "a single table with columns Key (text, primary key) and Val (text,
  holding the serialized Document)": the table is a map from keys to documents, the fetch
  statement reads a row, the insert statement has "insert-or-replace semantics keyed by
  the root key". \<^verbatim>\<open>JSON.stringify\<close> followed by \<^verbatim>\<open>JSON.parse\<close> is the identity on a
  JSON value.

  The state of a Connection is its configuration, the memory map of its cache strategy,
  the rows of its table and the reading of the clock.
\<close>

record connection =
  configuration :: configuration
  memoryStore :: "json collection"
  table_rows :: "string \<rightharpoonup> json"
  clock :: int

text \<open>
  The options argument of a method, as the caller passes it: omitted, an object with some
  of the properties \<^verbatim>\<open>cache\<close>, \<^verbatim>\<open>assumeCache\<close> and \<^verbatim>\<open>defaults\<close>, or a boolean. The
  parameter's pattern \<^verbatim>\<open>{ cache = ..., ... } = {}\<close> takes the empty object for an
  omitted argument and reads the properties of any other value: a boolean has none of
  them, so every option takes its default.
\<close>

record options =
  opt_cache :: "bool option"
  opt_assumeCache :: "bool option"
  opt_defaults :: "bool option"

datatype options_argument = Omitted | Object options | Boolean bool

definition destructure :: "options_argument \<Rightarrow> options" where
  "destructure arg =
     (case arg of
        Omitted \<Rightarrow> \<lparr>opt_cache = None, opt_assumeCache = None, opt_defaults = None\<rparr>
      | Object opts \<Rightarrow> opts
      | Boolean b \<Rightarrow> \<lparr>opt_cache = None, opt_assumeCache = None, opt_defaults = None\<rparr>)"

definition or_default :: "bool option \<Rightarrow> bool \<Rightarrow> bool" where
  "or_default given dflt = (case given of None \<Rightarrow> dflt | Some b \<Rightarrow> b)"

type_synonym 'a result = "(error + 'a) \<times> connection"

text \<open>\<^verbatim>\<open>x == undefined\<close>, the test that \<^verbatim>\<open>??\<close> makes as well: undefined or null.\<close>

fun nullish :: "json option \<Rightarrow> bool" where
  "nullish None = True"
| "nullish (Some JNull) = True"
| "nullish (Some v) = False"

text \<open>\<^verbatim>\<open>this.cacheStrategyController.patch(keyContext, document)\<close>.\<close>

definition patch :: "connection \<Rightarrow> string \<Rightarrow> json \<Rightarrow> connection" where
  "patch c keyContext document =
     c\<lparr>memoryStore :=
         (case cacheStrategyController (configuration c) of
            Managed \<Rightarrow> CacheStrategy_patch (clock c) keyContext document (memoryStore c)
          | Restricted maxSize evictionAlgorithm \<Rightarrow>
              RestrictedCacheStrategy_patch maxSize evictionAlgorithm (clock c)
                keyContext document (memoryStore c))\<rparr>"

text \<open>
  \<^verbatim>\<open>Connection.fetch\<close> past its two guards (lines 500 to 516): the entry of the memory
  map or else the row of the table, admitted to the cache when the flag is set and the key
  is not in the map, then cloned, projected along the path and stripped of the timestamp.
\<close>

definition strip_timestamp :: "json option \<Rightarrow> json option" where
  "strip_timestamp documentClone =
     (case documentClone of
        None \<Rightarrow> None
      | Some d \<Rightarrow> if isDataModel d then Some (delete_property d ''_timestamp'') else Some d)"

definition fetch_main :: "connection \<Rightarrow> string \<Rightarrow> string list \<Rightarrow> bool \<Rightarrow> json option result" where
  "fetch_main c keyContext path cache =
     (let fetched = (if nullish (Map_get (memoryStore c) keyContext)
                     then table_rows c keyContext
                     else Map_get (memoryStore c) keyContext)
      in if nullish fetched then (Inr fetched, c)
         else (case fetched of
                 None \<Rightarrow> (Inr None, c)
               | Some d \<Rightarrow>
                   (let c' = (if cache \<and> \<not> Map_has (memoryStore c) keyContext
                              then patch c keyContext d else c)
                    in if path \<noteq> []
                       then (case pathCast_get (clone d) path of
                               Inl e \<Rightarrow> (Inl e, c')
                             | Inr v \<Rightarrow> (Inr (strip_timestamp v), c'))
                       else (Inr (strip_timestamp (Some (clone d))), c'))))"

text \<open>
  \<^verbatim>\<open>Connection.fetch\<close>. The call it makes to itself in the defaults branch passes
  \<^verbatim>\<open>assumeCache\<close> (false at that point) and \<^verbatim>\<open>defaults: false\<close>, so that call runs
  \<open>fetch_main\<close> on the same path.
\<close>

definition Connection_fetch :: "connection \<Rightarrow> string \<Rightarrow> options_argument \<Rightarrow> json option result" where
  "Connection_fetch c pathlike arg =
     (let cache = or_default (opt_cache (destructure arg)) True;
          assumeCache = or_default (opt_assumeCache (destructure arg))
                          (unsafeAssumeCache (configuration c));
          dflts = or_default (opt_defaults (destructure arg)) (defaults (configuration c));
          keyContext = hd (resolveKeyPath pathlike);
          path = tl (resolveKeyPath pathlike)
      in if assumeCache
         then (case Map_get (memoryStore c) keyContext of
                 None \<Rightarrow> (Inr None, c)
               | Some cachedObject \<Rightarrow>
                   if cachedObject = JNull then (Inr (Some JNull), c)
                   else (pathCast_get cachedObject path, c))
         else (case dataSchema (configuration c) of
                 Some sch \<Rightarrow>
                   if dflts
                   then (case fetch_main c keyContext path cache of
                           (Inl e, c') \<Rightarrow> (Inl e, c')
                         | (Inr val, c') \<Rightarrow>
                             if val = None \<and> truthy (Some (model sch))
                             then (case pathCast_get (model sch) path of
                                     Inl e \<Rightarrow> (Inl e, c')
                                   | Inr defaultValue \<Rightarrow>
                                       (Inr defaultValue,
                                        if cache \<and> \<not> Map_has (memoryStore c') keyContext
                                        then patch c' keyContext (model sch) else c'))
                             else (Inr val, c'))
                   else fetch_main c keyContext path cache
               | None \<Rightarrow> fetch_main c keyContext path cache))"

text \<open>\<^verbatim>\<open>Connection.exists\<close>: a fetch with the \<^verbatim>\<open>cache\<close> option only.\<close>

definition Connection_exists :: "connection \<Rightarrow> string \<Rightarrow> options_argument \<Rightarrow> bool result" where
  "Connection_exists c pathlike arg =
     (let cache = or_default (opt_cache (destructure arg)) (utilityCache (configuration c))
      in case Connection_fetch c pathlike
                (Object \<lparr>opt_cache = Some cache, opt_assumeCache = None, opt_defaults = None\<rparr>) of
           (Inl e, c') \<Rightarrow> (Inl e, c')
         | (Inr document, c') \<Rightarrow> (Inr (document \<noteq> None), c'))"

text \<open>
  Whether a fetch returns at line 494. What it returns there is the schema's model itself,
  or the part of it at the path: neither cloned nor stripped, it is the object that the
  schema holds, and a caller that changes it in place changes the schema's default.
  \<open>set_model\<close> is that change: the schema of the Connection with a new content of its
  model.
\<close>

definition fetch_returns_default :: "connection \<Rightarrow> string \<Rightarrow> options_argument \<Rightarrow> bool" where
  "fetch_returns_default c pathlike arg =
     (let cache = or_default (opt_cache (destructure arg)) True;
          assumeCache = or_default (opt_assumeCache (destructure arg))
                          (unsafeAssumeCache (configuration c));
          dflts = or_default (opt_defaults (destructure arg)) (defaults (configuration c));
          keyContext = hd (resolveKeyPath pathlike);
          path = tl (resolveKeyPath pathlike)
      in \<not> assumeCache \<and> dflts \<and>
         (case dataSchema (configuration c) of
            None \<Rightarrow> False
          | Some sch \<Rightarrow>
              fst (fetch_main c keyContext path cache) = Inr None \<and> truthy (Some (model sch))))"

definition set_model :: "connection \<Rightarrow> json \<Rightarrow> connection" where
  "set_model c m =
     c\<lparr>configuration := (configuration c)
          \<lparr>dataSchema := map_option (\<lambda>sch. sch\<lparr>model := m\<rparr>) (dataSchema (configuration c))\<rparr>\<rparr>"

text \<open>
  \<^verbatim>\<open>Connection.set\<close> past its defaults branch (lines 443 to 459), which is also what the
  call it makes to itself with \<^verbatim>\<open>defaults: false\<close> runs: the nested write into the
  fetched document or the check of the root document, the insert statement, and the patch
  of the cache. \<^verbatim>\<open>Generics.pathCast\<close> writes into its frame in place (line 437 relies on
  it): when the fetched document is the schema's model itself, the write changes the
  model.
\<close>

definition write_through :: "connection \<Rightarrow> string \<Rightarrow> json \<Rightarrow> bool \<Rightarrow> unit result" where
  "write_through c keyContext document cache =
     (let c' = c\<lparr>table_rows := (table_rows c)(keyContext \<mapsto> document)\<rparr>
      in (Inr (),
          if cache \<or> (case fetchAll (configuration c') of None \<Rightarrow> False | Some n \<Rightarrow> 0 < n)
                \<or> Map_has (memoryStore c') keyContext
          then patch c' keyContext document else c'))"

definition set_main :: "connection \<Rightarrow> string \<Rightarrow> json \<Rightarrow> bool \<Rightarrow> unit result" where
  "set_main c pathlike document cache =
     (let keyContext = hd (resolveKeyPath pathlike);
          path = tl (resolveKeyPath pathlike)
      in if path \<noteq> []
         then (case Connection_fetch c keyContext Omitted of
                 (Inl e, c') \<Rightarrow> (Inl e, c')
               | (Inr fetched, c') \<Rightarrow>
                   (case pathCast_set (case fetched of
                                         None \<Rightarrow> JObj []
                                       | Some documentOld \<Rightarrow>
                                           if documentOld = JNull then JObj [] else documentOld)
                           path document of
                      Inl e \<Rightarrow> (Inl e, c')
                    | Inr document' \<Rightarrow>
                        write_through
                          (if fetch_returns_default c keyContext Omitted
                           then set_model c' document' else c')
                          keyContext document' cache))
         else if \<not> isDataModel document then (Inl TypeError, c)
         else write_through c keyContext document cache)"

definition Connection_set :: "connection \<Rightarrow> string \<Rightarrow> json \<Rightarrow> options_argument \<Rightarrow> unit result" where
  "Connection_set c pathlike document arg =
     (let cache = or_default (opt_cache (destructure arg)) (insertionCache (configuration c));
          dflts = or_default (opt_defaults (destructure arg)) (defaults (configuration c));
          keyContext = hd (resolveKeyPath pathlike);
          path = tl (resolveKeyPath pathlike)
      in case dataSchema (configuration c) of
           None \<Rightarrow> set_main c pathlike document cache
         | Some sch \<Rightarrow>
             if dflts
             then (case Connection_exists c keyContext Omitted of
                     (Inl e, c') \<Rightarrow> (Inl e, c')
                   | (Inr found, c') \<Rightarrow>
                       if found then set_main c' pathlike document cache
                       else if path \<noteq> []
                       then (case pathCast_set (clone (model sch)) path document of
                               Inl e \<Rightarrow> (Inl e, c')
                             | Inr model' \<Rightarrow> set_main c' keyContext model' cache)
                       else set_main c' keyContext (clone (model sch)) cache)
             else set_main c pathlike document cache)"

text \<open>
  \<^verbatim>\<open>Connection.push\<close>. The second argument of its fetch is the boolean
  \<^verbatim>\<open>this.configuration.utilityCache\<close> itself. \<^verbatim>\<open>sourceArray.push\<close> on a value that is
  undefined or no array raises a TypeError. It appends in place: when the fetched array is
  the one inside the schema's model (the fetch returned at line 494), the model holds the
  longer array from then on.
\<close>

definition pushed_into_model :: "connection \<Rightarrow> string list \<Rightarrow> json list \<Rightarrow> connection" where
  "pushed_into_model c path sourceArray =
     (case dataSchema (configuration c) of
        None \<Rightarrow> c
      | Some sch \<Rightarrow>
          (case pathCast_set (model sch) path (JArr sourceArray) of
             Inl e \<Rightarrow> c
           | Inr model' \<Rightarrow> set_model c model'))"

definition Connection_push :: "connection \<Rightarrow> string \<Rightarrow> json list \<Rightarrow> int result" where
  "Connection_push c pathlike values =
     (case Connection_fetch c pathlike (Boolean (utilityCache (configuration c))) of
        (Inl e, c') \<Rightarrow> (Inl e, c')
      | (Inr (Some (JArr sourceArray)), c') \<Rightarrow>
          (case Connection_set
                  (if fetch_returns_default c pathlike (Boolean (utilityCache (configuration c)))
                   then pushed_into_model c' (tl (resolveKeyPath pathlike)) (sourceArray @ values)
                   else c')
                  pathlike (JArr (sourceArray @ values)) Omitted of
             (Inl e, c'') \<Rightarrow> (Inl e, c'')
           | (Inr u, c'') \<Rightarrow> (Inr (int (length (sourceArray @ values))), c''))
      | (Inr other, c') \<Rightarrow> (Inl TypeError, c'))"

text \<open>
  \<^verbatim>\<open>Connection.modify\<close>. The callback receives the fetched value, which may be undefined,
  and the pathlike, and returns the document to set.
\<close>

definition Connection_modify ::
  "connection \<Rightarrow> string \<Rightarrow> (json option \<Rightarrow> string \<Rightarrow> json) \<Rightarrow> json option result" where
  "Connection_modify c pathlike newEntityCallback =
     (case Connection_fetch c pathlike (Boolean (utilityCache (configuration c))) of
        (Inl e, c') \<Rightarrow> (Inl e, c')
      | (Inr sourceEntity, c') \<Rightarrow>
          (case Connection_set c' pathlike (newEntityCallback sourceEntity pathlike) Omitted of
             (Inl e, c'') \<Rightarrow> (Inl e, c'')
           | (Inr u, c'') \<Rightarrow>
               Connection_fetch c'' (hd (resolveKeyPath pathlike))
                 (Boolean (utilityCache (configuration c'')))))"

text \<open>\<^verbatim>\<open>Connection.invert\<close>.\<close>

definition Connection_invert :: "connection \<Rightarrow> string \<Rightarrow> bool result" where
  "Connection_invert c pathlike =
     (case Connection_fetch c pathlike (Boolean (utilityCache (configuration c))) of
        (Inl e, c') \<Rightarrow> (Inl e, c')
      | (Inr fetched, c') \<Rightarrow>
          (case Connection_set c' pathlike (JBool (\<not> truthy fetched)) Omitted of
             (Inl e, c'') \<Rightarrow> (Inl e, c'')
           | (Inr u, c'') \<Rightarrow> (Inr (\<not> truthy fetched), c'')))"

text \<open>
  The default configuration of a Connection (the constructor's object literal), and a
  Connection that has just been opened on an empty table.
\<close>

definition default_configuration :: configuration where
  "default_configuration =
     \<lparr>cacheStrategyController = Managed, insertionCache = True, utilityCache = True,
      fetchAll = None, unsafeAssumeCache = False, dataSchema = None, defaults = False\<rparr>"

definition new_connection :: "configuration \<Rightarrow> int \<Rightarrow> connection" where
  "new_connection cfg now =
     \<lparr>configuration = cfg, memoryStore = [], table_rows = Map.empty, clock = now\<rparr>"

text \<open>
  States for the examples: a Connection whose restricted cache is full and refuses, and one
  with both cache options off over a table that holds one row.
\<close>

definition refusing_connection :: connection where
  "refusing_connection =
     \<lparr>configuration = default_configuration\<lparr>cacheStrategyController := Restricted (enat 1) refuse_new\<rparr>,
      memoryStore = [(''a'', JObj [])], table_rows = Map.empty, clock = 0\<rparr>"

definition uncached_connection :: connection where
  "uncached_connection =
     \<lparr>configuration = default_configuration\<lparr>insertionCache := False, utilityCache := False\<rparr>,
      memoryStore = [], table_rows = [''u1'' \<mapsto> JObj [(''items'', JArr [])]], clock = 0\<rparr>"

text \<open>
  More states for the examples, all with the full cache that refuses: one whose algorithm
  drops an entry as it refuses, one over a table with a row for \<^verbatim>\<open>b\<close>, and one with
  \<^verbatim>\<open>unsafeAssumeCache\<close>, a schema and \<^verbatim>\<open>defaults\<close> on.
\<close>

definition dropping_connection :: connection where
  "dropping_connection =
     refusing_connection\<lparr>configuration :=
        default_configuration\<lparr>cacheStrategyController := Restricted (enat 1) drop_refuse\<rparr>\<rparr>"

definition refusing_row_connection :: connection where
  "refusing_row_connection =
     refusing_connection\<lparr>table_rows := [''b'' \<mapsto> JObj [(''x'', JNum 5)]]\<rparr>"

definition refusing_defaults_connection :: connection where
  "refusing_defaults_connection =
     refusing_connection\<lparr>configuration := (configuration refusing_connection)
        \<lparr>unsafeAssumeCache := True, defaults := True,
         dataSchema := Some \<lparr>model = JObj [(''n'', JNum 0)]\<rparr>\<rparr>\<rparr>"

text \<open>
  The callback \<^verbatim>\<open>b => b + 50\<close>: the sum on a number; on undefined the result is NaN,
  which the serialized document holds as null.
\<close>

definition add_fifty :: "json option \<Rightarrow> string \<Rightarrow> json" where
  "add_fifty b pathlike = (case b of Some (JNum n) \<Rightarrow> JNum (n + 50) | _ \<Rightarrow> JNull)"

text \<open>
  The state between the calls of a scenario on one key: the row of the key is an object with
  the fields \<open>fs\<close>, none of them the timestamp, and the cache has no entry for the key or
  has that object with the timestamp that \<^verbatim>\<open>patch\<close> gave it.
\<close>

definition in_step :: "connection \<Rightarrow> string \<Rightarrow> (string \<times> json) list \<Rightarrow> bool" where
  "in_step c k fs =
     (table_rows c k = Some (JObj fs) \<and> \<not> Map_has fs ''_timestamp''
      \<and> (Map_get (memoryStore c) k = None
           \<or> Map_get (memoryStore c) k = Some (JObj (Map_set fs ''_timestamp'' (JNum (clock c))))))"

text \<open>
  A cache strategy that brings no key into the memory map but the one it is asked to admit:
  the managed one, and a restricted one whose eviction algorithm leaves no key in the map
  that was not there.
\<close>

definition adds_no_key :: "cacheStrategy \<Rightarrow> bool" where
  "adds_no_key strategy =
     (case strategy of
        Managed \<Rightarrow> True
      | Restricted maxSize ev \<Rightarrow> (\<forall>m k. Map_has (snd (ev m)) k \<longrightarrow> Map_has m k))"

text \<open>
  An eviction algorithm that refuses and leaves an entry of its own for \<^verbatim>\<open>u1\<close>, and
  states for the examples of the scenario: a Connection that reads the cache only and
  admits no write to it, one whose restricted cache has that algorithm, and one whose cache
  holds a number for \<^verbatim>\<open>u1\<close>.
\<close>

definition plant_u1 :: evictionPolicy where
  "plant_u1 m = (False, [(''u1'', JObj [(''balance'', JNum 0)])])"

definition assuming_connection :: connection where
  "assuming_connection =
     new_connection (default_configuration\<lparr>unsafeAssumeCache := True, insertionCache := False\<rparr>) 0"

definition planting_connection :: connection where
  "planting_connection =
     new_connection (default_configuration\<lparr>cacheStrategyController := Restricted (enat 0) plant_u1\<rparr>) 0"

definition stale_connection :: connection where
  "stale_connection = (new_connection default_configuration 0)\<lparr>memoryStore := [(''u1'', JNum 5)]\<rparr>"

section \<open>The bounded cache\<close>

lemma Map_set_length_has: "Map_has m k \<Longrightarrow> length (Map_set m k v) = length m"
  by (induction m) (force simp: Map_has_def)+

lemma Map_set_length_new: "\<not> Map_has m k \<Longrightarrow> length (Map_set m k v) = Suc (length m)"
  by (induction m) (auto simp: Map_has_def)

lemma Map_set_length_le: "length (Map_set m k v) \<le> Suc (length m)"
  by (induction m) auto

lemma patch_bounded:
  assumes shrink: "\<And>m. fst (ev m) \<Longrightarrow> length (snd (ev m)) < length m"
      and refuse: "\<And>m. \<not> fst (ev m) \<Longrightarrow> length (snd (ev m)) \<le> length m"
      and inv: "length m \<le> N"
  shows "length (RestrictedCacheStrategy_patch (enat N) ev now k d m) \<le> N"
proof (cases "N \<le> length m \<and> \<not> Map_has m k")
  case True
  obtain ok m' where ev: "ev m = (ok, m')" by (cases "ev m")
  show ?thesis
  proof (cases ok)
    case True
    with shrink [of m] ev have "length m' < length m" by simp
    with inv have "Suc (length m') \<le> N" by simp
    moreover have "length (Map_set m' k (set_property d ''_timestamp'' (JNum now))) \<le> Suc (length m')"
      by (rule Map_set_length_le)
    ultimately show ?thesis
      using \<open>N \<le> length m \<and> \<not> Map_has m k\<close> ev True
      by (simp add: RestrictedCacheStrategy_patch_def CacheStrategy_patch_def Map_size_def)
  next
    case False
    with refuse [of m] ev have "length m' \<le> length m" by simp
    with inv show ?thesis
      using \<open>N \<le> length m \<and> \<not> Map_has m k\<close> ev False
      by (simp add: RestrictedCacheStrategy_patch_def Map_size_def)
  qed
next
  case False
  then consider "length m < N" | "Map_has m k" by fastforce
  then have "length (Map_set m k (set_property d ''_timestamp'' (JNum now))) \<le> N"
  proof cases
    case 1
    with Map_set_length_le [of m k] show ?thesis
      by (meson Suc_leI le_trans)
  next
    case 2
    with inv show ?thesis by (simp add: Map_set_length_has)
  qed
  with False show ?thesis
    by (auto simp: RestrictedCacheStrategy_patch_def CacheStrategy_patch_def Map_size_def)
qed

lemma patch_all_bounded:
  assumes shrink: "\<And>m. fst (ev m) \<Longrightarrow> length (snd (ev m)) < length m"
      and refuse: "\<And>m. \<not> fst (ev m) \<Longrightarrow> length (snd (ev m)) \<le> length m"
  shows "length m \<le> N \<Longrightarrow> length (patch_all (enat N) ev calls m) \<le> N"
proof (induction calls arbitrary: m)
  case Nil
  then show ?case by simp
next
  case (Cons c calls)
  obtain now k d where c: "c = (now, k, d)" by (cases c)
  have "length (RestrictedCacheStrategy_patch (enat N) ev now k d m) \<le> N"
    using shrink refuse Cons.prems by (rule patch_bounded)
  then show ?case using Cons.IH c by simp
qed




section \<open>Selection.limit\<close>

lemma limit_loop_id:
  "0 \<le> amount \<or> extractionStartOffset \<le> pointer \<Longrightarrow>
   limit_loop extractionStartOffset amount pointer ks cache = cache"
  by (induction ks arbitrary: pointer) auto

text \<open>
  C2, as amended. For every Selection and every call \<^verbatim>\<open>limit(offset, amount)\<close> with
  \<open>offset \<ge> 0\<close> and an amount that is omitted or not negative, the working map after the
  call equals the map before it.
\<close>

theorem limit_removes_nothing:
  assumes "0 \<le> extractionStartOffset"
      and "case amount of None \<Rightarrow> True | Some a \<Rightarrow> 0 \<le> a"
  shows "limit extractionStartOffset amount cache = cache"
  using assms by (auto simp: limit_def limit_loop_id split: option.splits)

theorem limit_removes_nothing_witness:
  "limit 1 (Some 1) [(''a'', JObj []), (''b'', JObj []), (''c'', JObj [])]
     = [(''a'', JObj []), (''b'', JObj []), (''c'', JObj [])]"
  using limit_removes_nothing [of 1 "Some 1" "[(''a'', JObj []), (''b'', JObj []), (''c'', JObj [])]"]
  by simp

text \<open>
  The claim as stated, for every amount, fails: with offset 2 and amount -2 the first
  two entries satisfy \<^verbatim>\<open>offset > pointer && pointer >= offset + amount\<close> and are deleted.
\<close>

theorem limit_negative_amount_counterexample:
  "(0::int) \<le> 2
   \<and> limit 2 (Some (- 2)) [(''a'', JObj []), (''b'', JObj []), (''c'', JObj [])] = [(''c'', JObj [])]
   \<and> limit 2 (Some (- 2)) [(''a'', JObj []), (''b'', JObj []), (''c'', JObj [])]
       \<noteq> [(''a'', JObj []), (''b'', JObj []), (''c'', JObj [])]"
  by (simp add: limit_def Map_delete_def)

section \<open>Selection.join\<close>

lemma Map_set_keys: "Map_has m k \<Longrightarrow> map fst (Map_set m k v) = map fst m"
  by (induction m) (force simp: Map_has_def)+

lemma Map_get_Map_set: "Map_get (Map_set m k v) k' = (if k' = k then Some v else Map_get m k')"
  by (induction m) (auto simp: Map_get_def)

lemma Map_get_Some_has: "Map_get m k = Some v \<Longrightarrow> Map_has m k"
  by (auto simp: Map_get_def Map_has_def dest: map_of_SomeD intro: rev_image_eqI)

lemma Map_has_keys: "Map_has m k = (k \<in> set (map fst m))"
  by (simp add: Map_has_def)

lemma join_loop_frame:
  "join_loop pc js rp other cache calls = (err, cache', calls') \<Longrightarrow>
     map fst cache' = map fst cache
     \<and> (\<exists>new. calls' = calls @ new
          \<and> (\<forall>(k, index, joinObject) \<in> set new.
                (index, joinObject) \<in> set other
                \<and> join_fieldId pc rp index joinObject = Inr (Some (JStr k))
                \<and> Map_has cache k))
     \<and> (\<forall>k. (\<forall>(index, joinObject) \<in> set other.
                join_fieldId pc rp index joinObject \<noteq> Inr (Some (JStr k)))
            \<longrightarrow> Map_get cache' k = Map_get cache k)"
proof (induction other arbitrary: cache calls)
  case Nil
  then show ?case by simp
next
  case (Cons e rest)
  obtain index joinObject where e: "e = (index, joinObject)" by (cases e)
  let ?fid = "join_fieldId pc rp index joinObject"
  consider (err) x where "?fid = Inl x"
    | (hit) k d where "?fid = Inr (Some (JStr k))" "Map_get cache k = Some d" "truthy (Some d)"
    | (skip) "join_loop pc js rp (e # rest) cache calls = join_loop pc js rp rest cache calls"
  proof (cases ?fid)
    case (Inl x)
    then show ?thesis by (rule err)
  next
    case (Inr v)
    show ?thesis
    proof (cases "\<exists>k d. v = Some (JStr k) \<and> Map_get cache k = Some d \<and> truthy (Some d)")
      case True
      with Inr hit show ?thesis by blast
    next
      case False
      with Inr e have "join_loop pc js rp (e # rest) cache calls = join_loop pc js rp rest cache calls"
        by (auto split: option.splits json.splits)
      then show ?thesis by (rule skip)
    qed
  qed
  then show ?case
  proof cases
    case err
    with Cons.prems e show ?thesis by auto
  next
    case hit
    let ?c = "Map_set cache k (if is_object d then js d index joinObject else d)"
    have has: "Map_has cache k" using hit(2) by (rule Map_get_Some_has)
    from Cons.prems e hit
    have run: "join_loop pc js rp rest ?c (calls @ [(k, index, joinObject)]) = (err, cache', calls')"
      by simp
    note ih = Cons.IH [OF run]
    have keys: "map fst ?c = map fst cache" using has by (rule Map_set_keys)
    have hasc: "\<And>k'. Map_has ?c k' = Map_has cache k'"
      using keys by (simp add: Map_has_keys)
    from ih obtain new where new: "calls' = (calls @ [(k, index, joinObject)]) @ new"
      and newp: "\<forall>(k', i, j) \<in> set new. (i, j) \<in> set rest
                   \<and> join_fieldId pc rp i j = Inr (Some (JStr k')) \<and> Map_has ?c k'"
      by blast
    have A: "map fst cache' = map fst cache" using ih keys by simp
    have B1: "calls' = calls @ ((k, index, joinObject) # new)" using new by simp
    have B2: "\<forall>(k', i, j) \<in> set ((k, index, joinObject) # new).
        (i, j) \<in> set (e # rest) \<and> join_fieldId pc rp i j = Inr (Some (JStr k')) \<and> Map_has cache k'"
      using newp hasc has hit(1) e by auto
    have C: "\<forall>k'. (\<forall>(i, j) \<in> set (e # rest). join_fieldId pc rp i j \<noteq> Inr (Some (JStr k')))
        \<longrightarrow> Map_get cache' k' = Map_get cache k'"
    proof (intro allI impI)
      fix k'
      assume nomatch: "\<forall>(i, j) \<in> set (e # rest). join_fieldId pc rp i j \<noteq> Inr (Some (JStr k'))"
      then have "k' \<noteq> k" using hit(1) e by auto
      moreover from nomatch ih have "Map_get cache' k' = Map_get ?c k'" by auto
      ultimately show "Map_get cache' k' = Map_get cache k'" by (simp add: Map_get_Map_set)
    qed
    from B1 B2 have B: "\<exists>new. calls' = calls @ new
          \<and> (\<forall>(k', i, j) \<in> set new. (i, j) \<in> set (e # rest)
                \<and> join_fieldId pc rp i j = Inr (Some (JStr k')) \<and> Map_has cache k')"
      by (intro exI [of _ "(k, index, joinObject) # new"] conjI)
    from A B C show ?thesis by (intro conjI)
  next
    case skip
    with Cons.prems have run: "join_loop pc js rp rest cache calls = (err, cache', calls')" by simp
    from Cons.IH [OF run] show ?thesis by (auto simp: e) 
  qed
qed

text \<open>
  C9. For every \<^verbatim>\<open>join(other, strategy, field)\<close> on a Selection, whatever the path reader
  does: the keys of this Selection, in order, are the same after the call; every invocation
  of the strategy is for an entry of \<open>other\<close> whose join key is a key of this Selection; and
  the document under a key that is the join key of no entry of \<open>other\<close> is unchanged.
\<close>

theorem join_frame:
  assumes "join pathCast cache other joinStrategy field = (err, cache', calls)"
  shows "map fst cache' = map fst cache
     \<and> (\<forall>(k, index, joinObject) \<in> set calls.
           (index, joinObject) \<in> set other
           \<and> join_fieldId pathCast (join_resolvedKeyPath field) index joinObject = Inr (Some (JStr k))
           \<and> Map_has cache k)
     \<and> (\<forall>k. (\<forall>(index, joinObject) \<in> set other.
                join_fieldId pathCast (join_resolvedKeyPath field) index joinObject \<noteq> Inr (Some (JStr k)))
            \<longrightarrow> Map_get cache' k = Map_get cache k)"
  using join_loop_frame [of pathCast joinStrategy "join_resolvedKeyPath field" other cache "[]" err cache' calls]
    assms
  by (simp add: join_def)

theorem join_frame_witness:
  "join pathCast_get
      [(''u1'', JObj [(''name'', JStr ''ann'')]), (''u2'', JObj [(''name'', JStr ''bob'')])]
      [(''r1'', JObj [(''user'', JStr ''u2''), (''title'', JStr ''admin'')]),
       (''r2'', JObj [(''user'', JStr ''u9'')])]
      merge_role (Some ''user'')
    = (None,
       [(''u1'', JObj [(''name'', JStr ''ann'')]),
        (''u2'', JObj [(''name'', JStr ''bob''),
                       (''role'', JObj [(''user'', JStr ''u2''), (''title'', JStr ''admin'')])])],
       [(''u2'', ''r1'', JObj [(''user'', JStr ''u2''), (''title'', JStr ''admin'')])])
   \<and> Map_get [(''u1'', JObj [(''name'', JStr ''ann'')]),
        (''u2'', JObj [(''name'', JStr ''bob''),
                       (''role'', JObj [(''user'', JStr ''u2''), (''title'', JStr ''admin'')])])] ''u1''
       = Map_get [(''u1'', JObj [(''name'', JStr ''ann'')]), (''u2'', JObj [(''name'', JStr ''bob'')])] ''u1''"
proof -
  have run: "join pathCast_get
      [(''u1'', JObj [(''name'', JStr ''ann'')]), (''u2'', JObj [(''name'', JStr ''bob'')])]
      [(''r1'', JObj [(''user'', JStr ''u2''), (''title'', JStr ''admin'')]),
       (''r2'', JObj [(''user'', JStr ''u9'')])]
      merge_role (Some ''user'')
    = (None,
       [(''u1'', JObj [(''name'', JStr ''ann'')]),
        (''u2'', JObj [(''name'', JStr ''bob''),
                       (''role'', JObj [(''user'', JStr ''u2''), (''title'', JStr ''admin'')])])],
       [(''u2'', ''r1'', JObj [(''user'', JStr ''u2''), (''title'', JStr ''admin'')])])"
    by (simp add: join_def join_resolvedKeyPath_def join_fieldId_def Map_get_def merge_role_def
        set_property_def)
  from join_frame [OF run] run show ?thesis
    by (simp add: join_resolvedKeyPath_def join_fieldId_def Map_get_def)
qed

section \<open>Connection: paths, frames and root-level calls\<close>

lemma split_dots_ne [simp]: "split_dots s \<noteq> []"
  by (induction s rule: split_dots.induct) (auto split: list.splits)

lemma clone_id [simp]: "clone d = d"
proof (induction d rule: clone.induct)
  case (2 fs)
  have "map (\<lambda>(k, v). (k, clone v)) fs = map (\<lambda>e. e) fs"
    by (rule map_cong) (auto simp: 2)
  then show ?case by simp
qed (auto simp: map_idI)

lemma split_dots_nodot: "CHR ''.'' \<notin> set s \<Longrightarrow> split_dots s = [s]"
  by (induction s rule: split_dots.induct) (auto split: list.splits)

lemma split_dots_segments: "w \<in> set (split_dots s) \<Longrightarrow> CHR ''.'' \<notin> set w"
  by (induction s arbitrary: w rule: split_dots.induct) (auto split: list.splits if_splits)

lemma resolve_key [simp]: "resolveKeyPath (hd (resolveKeyPath p)) = [hd (resolveKeyPath p)]"
  unfolding resolveKeyPath_def
  by (rule split_dots_nodot) (rule split_dots_segments, rule hd_in_set, simp)

lemma patch_frame [simp]:
  "configuration (patch c k d) = configuration c"
  "table_rows (patch c k d) = table_rows c"
  "clock (patch c k d) = clock c"
  by (simp_all add: patch_def)

lemma fetch_main_frame:
  "configuration (snd (fetch_main c k p b)) = configuration c
   \<and> table_rows (snd (fetch_main c k p b)) = table_rows c
   \<and> clock (snd (fetch_main c k p b)) = clock c"
  by (simp add: fetch_main_def Let_def split: option.splits sum.splits)

lemma fetch_main_root: "\<exists>v. fst (fetch_main c k [] b) = Inr v"
  by (simp add: fetch_main_def Let_def split: option.splits)

lemma Connection_fetch_frame:
  "configuration (snd (Connection_fetch c p a)) = configuration c
   \<and> table_rows (snd (Connection_fetch c p a)) = table_rows c
   \<and> clock (snd (Connection_fetch c p a)) = clock c"
proof -
  let ?k = "hd (resolveKeyPath p)" and ?p = "tl (resolveKeyPath p)"
  let ?b = "or_default (opt_cache (destructure a)) True"
  obtain r c' where m: "fetch_main c ?k ?p ?b = (r, c')" by (cases "fetch_main c ?k ?p ?b")
  from fetch_main_frame [of c ?k ?p ?b] m
  have "configuration c' = configuration c \<and> table_rows c' = table_rows c \<and> clock c' = clock c"
    by simp
  with m show ?thesis
    by (simp add: Connection_fetch_def Let_def split: option.splits sum.splits)
qed

lemma Connection_fetch_root:
  "tl (resolveKeyPath p) = [] \<Longrightarrow> \<exists>v. fst (Connection_fetch c p a) = Inr v"
  using fetch_main_root [of c "hd (resolveKeyPath p)" "or_default (opt_cache (destructure a)) True"]
  by (auto simp: Connection_fetch_def Let_def split: option.splits sum.splits prod.splits)

lemma not_truthy_not_DataModel: "\<not> truthy (Some d) \<Longrightarrow> \<not> isDataModel d"
  by (cases d) (simp_all add: isDataModel_def)

lemma set_main_root_scalar:
  "tl (resolveKeyPath p) = [] \<Longrightarrow> \<not> isDataModel d \<Longrightarrow> set_main c p d b = (Inl TypeError, c)"
  by (simp add: set_main_def Let_def)

lemma set_main_key_scalar:
  "\<not> isDataModel d \<Longrightarrow> set_main c (hd (resolveKeyPath p)) d b = (Inl TypeError, c)"
  by (rule set_main_root_scalar) simp_all

text \<open>Without assumeCache, with schema defaults: exists is false only for a falsy model.\<close>

lemma exists_key_defaults:
  assumes "dataSchema (configuration c) = Some sch" "defaults (configuration c)"
      and "\<not> unsafeAssumeCache (configuration c)"
      and "Connection_exists c (hd (resolveKeyPath p)) Omitted = (r, c')"
  shows "r = Inr True \<or> (r = Inr False \<and> \<not> truthy (Some (model sch)))"
proof -
  let ?k = "hd (resolveKeyPath p)"
  let ?b = "utilityCache (configuration c)"
  obtain v c1 where m: "fetch_main c ?k [] ?b = (Inr v, c1)"
    using fetch_main_root [of c ?k ?b] by (cases "fetch_main c ?k [] ?b") auto
  from assms m show ?thesis
    by (auto simp: Connection_exists_def Connection_fetch_def Let_def destructure_def or_default_def
        split: if_splits)
qed

lemma Connection_exists_frame:
  "configuration (snd (Connection_exists c p a)) = configuration c
   \<and> table_rows (snd (Connection_exists c p a)) = table_rows c
   \<and> clock (snd (Connection_exists c p a)) = clock c"
proof -
  let ?a = "Object \<lparr>opt_cache = Some (or_default (opt_cache (destructure a)) (utilityCache (configuration c))), opt_assumeCache = None, opt_defaults = None\<rparr>"
  obtain r c' where f: "Connection_fetch c p ?a = (r, c')" by (cases "Connection_fetch c p ?a")
  with Connection_fetch_frame [of c p ?a] show ?thesis
    by (cases r) (simp_all add: Connection_exists_def Let_def)
qed

lemma set_root_scalar_plain:
  assumes "tl (resolveKeyPath p) = []" "\<not> isDataModel d"
      and "dataSchema (configuration c) = None \<or> \<not> defaults (configuration c)"
  shows "Connection_set c p d Omitted = (Inl TypeError, c)"
  using assms
  by (auto simp: Connection_set_def Let_def destructure_def or_default_def set_main_root_scalar
      split: option.splits)

lemma set_root_scalar_raises:
  assumes root: "tl (resolveKeyPath p) = []" and d: "\<not> isDataModel d"
      and cfg: "\<not> unsafeAssumeCache (configuration c)
                \<or> dataSchema (configuration c) = None \<or> \<not> defaults (configuration c)"
  shows "fst (Connection_set c p d Omitted) = Inl TypeError
         \<and> table_rows (snd (Connection_set c p d Omitted)) = table_rows c"
proof (cases "dataSchema (configuration c) = None \<or> \<not> defaults (configuration c)")
  case True
  with root d show ?thesis by (simp add: set_root_scalar_plain)
next
  case False
  then obtain sch where sch: "dataSchema (configuration c) = Some sch"
    and dflt: "defaults (configuration c)" by auto
  with cfg have na: "\<not> unsafeAssumeCache (configuration c)" by simp
  let ?k = "hd (resolveKeyPath p)"
  obtain r c' where ex: "Connection_exists c ?k Omitted = (r, c')"
    by (cases "Connection_exists c ?k Omitted")
  from Connection_exists_frame [of c ?k Omitted] ex
  have tab: "table_rows c' = table_rows c" by simp
  from exists_key_defaults [OF sch dflt na ex]
  consider "r = Inr True" | "r = Inr False" "\<not> truthy (Some (model sch))" by blast
  then show ?thesis
  proof cases
    case 1
    with sch dflt ex root d tab show ?thesis
      by (simp add: Connection_set_def Let_def destructure_def or_default_def set_main_root_scalar)
  next
    case 2
    from 2(2) have "\<not> isDataModel (model sch)" by (rule not_truthy_not_DataModel)
    with 2(1) sch dflt ex root tab show ?thesis
      by (simp add: Connection_set_def Let_def destructure_def or_default_def set_main_key_scalar)
  qed
qed

lemma resolve_k: "resolveKeyPath ''k'' = [''k'']"
  by (simp add: resolveKeyPath_def)

section \<open>Root-level writes of a value that is no container\<close>

text \<open>
  C6, as amended. For every \<^verbatim>\<open>set(pathlike, document)\<close> whose nested path is empty and
  whose document is no container: when schema defaults are not in effect (no schema, or
  \<^verbatim>\<open>defaults\<close> off) the call raises the TypeError and leaves the cache map and the table
  as they were; when \<^verbatim>\<open>unsafeAssumeCache\<close> is off the call raises the TypeError and
  leaves the table as it was, whatever the schema.
\<close>

theorem set_root_scalar_type_error:
  assumes "tl (resolveKeyPath pathlike) = []" and "\<not> isDataModel document"
  shows "(dataSchema (configuration c) = None \<or> \<not> defaults (configuration c)
            \<longrightarrow> Connection_set c pathlike document Omitted = (Inl TypeError, c))
       \<and> (\<not> unsafeAssumeCache (configuration c)
            \<longrightarrow> fst (Connection_set c pathlike document Omitted) = Inl TypeError
                \<and> table_rows (snd (Connection_set c pathlike document Omitted)) = table_rows c)"
  using assms set_root_scalar_plain [of pathlike document c]
    set_root_scalar_raises [of pathlike document c]
  by blast

theorem set_root_scalar_type_error_witness:
  "Connection_set (new_connection default_configuration 0) ''k'' (JNum 5) Omitted
     = (Inl TypeError, new_connection default_configuration 0)
   \<and> fst (Connection_set
            (new_connection (default_configuration\<lparr>dataSchema := Some \<lparr>model = JObj []\<rparr>,
               defaults := True\<rparr>) 0) ''k'' (JNum 5) Omitted) = Inl TypeError"
proof -
  have p: "tl (resolveKeyPath ''k'') = []" by (simp add: resolve_k)
  have d: "\<not> isDataModel (JNum 5)" by (simp add: isDataModel_def)
  from set_root_scalar_type_error [OF p d, of "new_connection default_configuration 0"]
    set_root_scalar_type_error [OF p d, of "new_connection (default_configuration\<lparr>dataSchema
      := Some \<lparr>model = JObj []\<rparr>, defaults := True\<rparr>) 0"]
  show ?thesis by (simp add: new_connection_def default_configuration_def)
qed

text \<open>
  The claim as stated fails for the cache map: with a schema and \<^verbatim>\<open>defaults\<close> on, the
  existence check that \<^verbatim>\<open>set\<close> runs first admits the schema's model under the key before
  the TypeError is raised.
\<close>

theorem set_root_scalar_cache_counterexample:
  "fst (Connection_set
          (new_connection (default_configuration\<lparr>dataSchema := Some \<lparr>model = JObj []\<rparr>,
             defaults := True\<rparr>) 0) ''k'' (JNum 5) Omitted) = Inl TypeError
   \<and> memoryStore (new_connection (default_configuration\<lparr>dataSchema := Some \<lparr>model = JObj []\<rparr>,
             defaults := True\<rparr>) 0) = []
   \<and> memoryStore (snd (Connection_set
          (new_connection (default_configuration\<lparr>dataSchema := Some \<lparr>model = JObj []\<rparr>,
             defaults := True\<rparr>) 0) ''k'' (JNum 5) Omitted))
       = [(''k'', JObj [(''_timestamp'', JNum 0)])]"
  by (simp add: Connection_set_def Connection_exists_def Connection_fetch_def fetch_main_def
      set_main_def write_through_def patch_def CacheStrategy_patch_def set_property_def
      new_connection_def default_configuration_def destructure_def or_default_def
      resolveKeyPath_def Map_get_def Map_has_def isDataModel_def Let_def)

section \<open>Connection.invert at the root\<close>

text \<open>
  C10, as amended. For every root-level pathlike and every state of a Connection whose
  \<^verbatim>\<open>unsafeAssumeCache\<close> option is off, or whose schema defaults are not in effect,
  \<^verbatim>\<open>invert(pathlike)\<close> raises the TypeError of the root-level \<^verbatim>\<open>set\<close>.
\<close>

theorem invert_root_type_error:
  assumes root: "tl (resolveKeyPath pathlike) = []"
      and cfg: "\<not> unsafeAssumeCache (configuration c)
                \<or> dataSchema (configuration c) = None \<or> \<not> defaults (configuration c)"
  shows "fst (Connection_invert c pathlike) = Inl TypeError"
proof -
  let ?a = "Boolean (utilityCache (configuration c))"
  obtain v c1 where f: "Connection_fetch c pathlike ?a = (Inr v, c1)"
    using Connection_fetch_root [OF root, of c ?a] by (cases "Connection_fetch c pathlike ?a") auto
  from Connection_fetch_frame [of c pathlike ?a] f have "configuration c1 = configuration c" by simp
  with cfg have cfg1: "\<not> unsafeAssumeCache (configuration c1)
                \<or> dataSchema (configuration c1) = None \<or> \<not> defaults (configuration c1)" by simp
  have "\<not> isDataModel (JBool (\<not> truthy v))" by (simp add: isDataModel_def)
  from set_root_scalar_raises [OF root this cfg1]
  obtain c2 where "Connection_set c1 pathlike (JBool (\<not> truthy v)) Omitted = (Inl TypeError, c2)"
    by (cases "Connection_set c1 pathlike (JBool (\<not> truthy v)) Omitted") auto
  with f show ?thesis
    by (simp add: Connection_invert_def)
qed

theorem invert_root_type_error_witness:
  "fst (Connection_invert (new_connection default_configuration 0) ''k'') = Inl TypeError"
proof -
  have p: "tl (resolveKeyPath ''k'') = []" by (simp add: resolve_k)
  from invert_root_type_error [OF p, of "new_connection default_configuration 0"]
  show ?thesis by (simp add: new_connection_def default_configuration_def)
qed

text \<open>
  The claim as stated fails: with \<^verbatim>\<open>unsafeAssumeCache\<close> (and, as its documentation
  asks, the insertion cache and fetch-all on, no eviction), a schema and \<^verbatim>\<open>defaults\<close> on,
  and a key that is in neither table nor cache, \<^verbatim>\<open>set\<close> stores the schema's model in
  place of the boolean and \<^verbatim>\<open>invert\<close> returns true.
\<close>

theorem invert_root_returns_counterexample:
  "resolveKeyPath ''k'' = [''k'']
   \<and> Connection_invert
         (new_connection (default_configuration\<lparr>dataSchema := Some \<lparr>model = JObj []\<rparr>,
            defaults := True, unsafeAssumeCache := True, fetchAll := Some 64\<rparr>) 0) ''k''
       = (Inr True,
          (new_connection (default_configuration\<lparr>dataSchema := Some \<lparr>model = JObj []\<rparr>,
            defaults := True, unsafeAssumeCache := True, fetchAll := Some 64\<rparr>) 0)
            \<lparr>memoryStore := [(''k'', JObj [(''_timestamp'', JNum 0)])],
             table_rows := [''k'' \<mapsto> JObj []]\<rparr>)"
  by (simp add: Connection_invert_def Connection_set_def Connection_exists_def
      Connection_fetch_def fetch_main_def
      set_main_def write_through_def patch_def CacheStrategy_patch_def set_property_def
      new_connection_def default_configuration_def destructure_def or_default_def
      resolveKeyPath_def Map_get_def Map_has_def isDataModel_def Let_def)

section \<open>Lemmas on the map, on paths and on refused admissions\<close>

lemma strip_timestamp_Some: "strip_timestamp (Some d) = Some (delete_property d ''_timestamp'')"
  by (cases d) (simp_all add: strip_timestamp_def delete_property_def isDataModel_def)

lemma delete_property_gone: "\<not> has_property (delete_property d k) k"
  by (cases d) (auto simp: has_property_def delete_property_def Map_has_def Map_delete_def)

lemma nullish_Some: "nullish (Some d) = (d = JNull)"
  by (cases d) simp_all

lemma fetch_main_hit:
  assumes "Map_get (memoryStore c) k = Some entry" "entry \<noteq> JNull"
  shows "snd (fetch_main c k p b) = c"
    and "fetch_main c k [] b = (Inr (Some (delete_property entry ''_timestamp'')), c)"
  using assms Map_get_Some_has [OF assms(1)]
  by (auto simp: fetch_main_def Let_def nullish_Some strip_timestamp_Some
       split: sum.splits option.splits)

lemma Map_get_None: "\<not> Map_has m k \<Longrightarrow> Map_get m k = None"
  by (simp add: Map_has_def Map_get_def map_of_eq_None_iff)

lemma Map_get_Map_set_same: "Map_get (Map_set m k v) k = Some v"
  by (simp add: Map_get_Map_set)

lemma array_assign_nth: "array_assign xs i v ! i = v \<and> i < length (array_assign xs i v)"
  by (auto simp: array_assign_def nth_append)

lemma pathCast_set_get:
  "pathCast_set frame path item = Inr frame' \<Longrightarrow> path \<noteq> [] \<Longrightarrow>
   pathCast_get frame' path = Inr (Some item)"
proof (induction frame path item arbitrary: frame' rule: pathCast_set.induct)
  case (3 fs s s' path item)
  then show ?case
    by (auto simp: Map_get_Map_set_same split: sum.splits)
next
  case (5 xs s s' path item)
  then show ?case
    by (auto simp: array_assign_nth split: sum.splits if_splits)
qed (auto simp: Map_get_Map_set_same array_assign_nth split: if_splits)

lemma pathCast_set_new_container:
  "\<exists>frame'. pathCast_set (new_container s) (s # path) item = Inr frame'"
proof (induction path arbitrary: s)
  case Nil
  then show ?case by (simp add: new_container_def)
next
  case (Cons s' path)
  from Cons [of s'] obtain f where f: "pathCast_set (new_container s') (s' # path) item = Inr f"
    by blast
  then show ?case
    by (simp add: new_container_def Map_get_def)
qed

lemma pathCast_set_empty_object:
  "path \<noteq> [] \<Longrightarrow> \<exists>frame'. pathCast_set (JObj []) path item = Inr frame'"
proof (cases path)
  case Nil
  then show "path \<noteq> [] \<Longrightarrow> ?thesis" by simp
next
  case (Cons s rest)
  show ?thesis
  proof (cases rest)
    case Nil
    with Cons show ?thesis by simp
  next
    case (Cons s' rest')
    from pathCast_set_new_container [of s' rest' item]
    obtain f where "pathCast_set (new_container s') (s' # rest') item = Inr f" by blast
    with Cons \<open>path = s # rest\<close> show ?thesis by (simp add: Map_get_def)
  qed
qed

lemma patch_refused:
  assumes "cacheStrategyController (configuration c) = Restricted (enat N) ev"
      and "N \<le> Map_size (memoryStore c)"
      and "\<not> Map_has (memoryStore c) k"
      and "ev (memoryStore c) = (False, memoryStore c)"
  shows "patch (c\<lparr>table_rows := t\<rparr>) k d = c\<lparr>table_rows := t\<rparr>"
  using assms by (simp add: patch_def RestrictedCacheStrategy_patch_def)

lemma patch_refused':
  assumes "cacheStrategyController (configuration c) = Restricted (enat N) ev"
      and "N \<le> Map_size (memoryStore c)"
      and "\<not> Map_has (memoryStore c) k"
      and "ev (memoryStore c) = (False, memoryStore c)"
  shows "patch c k d = c"
  using patch_refused [OF assms, of "table_rows c" d] by simp

lemma fetch_main_refused:
  assumes "cacheStrategyController (configuration c) = Restricted (enat N) ev"
      and "N \<le> Map_size (memoryStore c)"
      and "\<not> Map_has (memoryStore c) k"
      and "ev (memoryStore c) = (False, memoryStore c)"
  shows "snd (fetch_main c k p b) = c"
    and "table_rows c k = None \<Longrightarrow> fetch_main c k p b = (Inr None, c)"
  using assms Map_get_None [OF assms(3)] patch_refused' [OF assms]
  by (auto simp: fetch_main_def Let_def split: option.splits sum.splits)

lemma fetch_key_refused:
  assumes "cacheStrategyController (configuration c) = Restricted (enat N) ev"
      and "N \<le> Map_size (memoryStore c)"
      and "\<not> Map_has (memoryStore c) (hd (resolveKeyPath p))"
      and "ev (memoryStore c) = (False, memoryStore c)"
      and "dataSchema (configuration c) = None \<or> \<not> defaults (configuration c)"
  shows "\<exists>v. Connection_fetch c (hd (resolveKeyPath p)) Omitted = (Inr v, c)
             \<and> (table_rows c (hd (resolveKeyPath p)) = None \<longrightarrow> v = None)"
proof -
  let ?k = "hd (resolveKeyPath p)"
  obtain v where v: "fst (fetch_main c ?k [] True) = Inr v"
    using fetch_main_root by blast
  with fetch_main_refused(1) [OF assms(1-4), of "[]" True]
  have m: "fetch_main c ?k [] True = (Inr v, c)" by (cases "fetch_main c ?k [] True") simp
  with fetch_main_refused(2) [OF assms(1-4), of "[]" True]
  have "table_rows c ?k = None \<longrightarrow> v = None" by auto
  with m assms(5) Map_get_None [OF assms(3)] show ?thesis
    by (auto simp: Connection_fetch_def Let_def destructure_def or_default_def split: option.splits)
qed

lemma write_through_refused:
  assumes "cacheStrategyController (configuration c) = Restricted (enat N) ev"
      and "N \<le> Map_size (memoryStore c)"
      and "\<not> Map_has (memoryStore c) k"
      and "ev (memoryStore c) = (False, memoryStore c)"
  shows "write_through c k d b = (Inr (), c\<lparr>table_rows := (table_rows c)(k \<mapsto> d)\<rparr>)"
  using assms patch_refused [OF assms, of "(table_rows c)(k \<mapsto> d)" d]
  by (simp add: write_through_def Let_def)

lemma Map_set_key_set: "fst ` set (Map_set m k v) = insert k (fst ` set m)"
proof (induction m)
  case Nil
  then show ?case by simp
next
  case (Cons e m)
  obtain k' v' where e: "e = (k', v')" by (cases e)
  show ?case
  proof (cases "k' = k")
    case True
    with e show ?thesis by simp
  next
    case False
    with e Cons show ?thesis by (simp add: insert_commute)
  qed
qed

lemma Map_has_Map_set [simp]: "Map_has (Map_set m k v) k' = (k' = k \<or> Map_has m k')"
  by (simp add: Map_has_def Map_set_key_set)

lemma resolve_u1_balance: "resolveKeyPath ''u1.balance'' = [''u1'', ''balance'']"
  by (simp add: resolveKeyPath_def)

lemma resolve_u1_items: "resolveKeyPath ''u1.items'' = [''u1'', ''items'']"
  by (simp add: resolveKeyPath_def)

lemma resolve_u1: "resolveKeyPath ''u1'' = [''u1'']"
  by (simp add: resolveKeyPath_def)

lemma Connection_fetch_plain:
  assumes "\<not> unsafeAssumeCache (configuration c)"
      and "dataSchema (configuration c) = None \<or> \<not> defaults (configuration c)"
  shows "Connection_fetch c p Omitted
           = fetch_main c (hd (resolveKeyPath p)) (tl (resolveKeyPath p)) True"
    and "Connection_fetch c p (Boolean b)
           = fetch_main c (hd (resolveKeyPath p)) (tl (resolveKeyPath p)) True"
  using assms
  by (auto simp: Connection_fetch_def Let_def destructure_def or_default_def split: option.splits)

lemma Connection_set_plain:
  assumes "dataSchema (configuration c) = None \<or> \<not> defaults (configuration c)"
  shows "Connection_set c p d Omitted = set_main c p d (insertionCache (configuration c))"
  using assms
  by (auto simp: Connection_set_def Let_def destructure_def or_default_def split: option.splits)

lemmas plain_defs = Connection_fetch_plain Connection_set_plain fetch_main_def
      set_main_def write_through_def patch_def CacheStrategy_patch_def set_property_def
      delete_property_def strip_timestamp_def isDataModel_def Let_def

section \<open>The cache option of the array helpers\<close>

lemmas eval_defs = Connection_push_def fetch_returns_default_def pushed_into_model_def set_model_def Connection_modify_def Connection_invert_def
      Connection_set_def Connection_exists_def Connection_fetch_def fetch_main_def
      set_main_def write_through_def patch_def CacheStrategy_patch_def set_property_def
      delete_property_def strip_timestamp_def
      default_configuration_def destructure_def or_default_def
      resolveKeyPath_def Map_get_def Map_has_def Map_delete_def isDataModel_def Let_def

text \<open>
  C5. The claim: the first fetch of an array helper takes \<^verbatim>\<open>utilityCache\<close> as its cache
  option. The code passes the boolean where the options object belongs, so the option
  keeps its default: with \<^verbatim>\<open>utilityCache\<close> and \<^verbatim>\<open>insertionCache\<close> off, the fetch of
  \<^verbatim>\<open>push\<close> admits the row to the cache, and the cache holds it after the call, while
  \<^verbatim>\<open>exists\<close>, which passes \<^verbatim>\<open>{ cache }\<close>, leaves the cache empty.
\<close>

theorem array_helper_fetch_ignores_utilityCache:
  "utilityCache (configuration uncached_connection) = False
   \<and> memoryStore uncached_connection = []
   \<and> memoryStore (snd (Connection_fetch uncached_connection ''u1.items''
                          (Boolean (utilityCache (configuration uncached_connection)))))
       = [(''u1'', JObj [(''items'', JArr []), (''_timestamp'', JNum 0)])]
   \<and> Connection_push uncached_connection ''u1.items'' [JStr ''sword'']
       = (Inr 1, uncached_connection
            \<lparr>memoryStore := [(''u1'', JObj [(''items'', JArr [JStr ''sword'']), (''_timestamp'', JNum 0)])],
             table_rows := [''u1'' \<mapsto> JObj [(''items'', JArr [JStr ''sword''])]]\<rparr>)
   \<and> memoryStore (snd (Connection_exists uncached_connection ''u1.items'' Omitted)) = []"
  by (simp add: uncached_connection_def eval_defs)



section \<open>Connection.push on an absent array and on a schema default\<close>

lemma pathCast_get_None_nonnull: "pathCast_get d path = Inr None \<Longrightarrow> d \<noteq> JNull \<and> path \<noteq> []"
  by (cases path; cases d) auto

lemma fetch_main_absent:
  assumes e: "\<forall>d. Map_get (memoryStore c) k = Some d \<longrightarrow> pathCast_get d path = Inr None"
      and r: "\<forall>d. table_rows c k = Some d \<longrightarrow> pathCast_get d path = Inr None"
  shows "fst (fetch_main c k path b) = Inr None"
proof -
  let ?f = "if nullish (Map_get (memoryStore c) k) then table_rows c k else Map_get (memoryStore c) k"
  show ?thesis
  proof (cases ?f)
    case None
    then show ?thesis by (simp add: fetch_main_def Let_def)
  next
    case (Some d)
    with e r have g: "pathCast_get d path = Inr None" by (auto split: if_splits)
    with pathCast_get_None_nonnull have "d \<noteq> JNull" "path \<noteq> []" by auto
    with Some g show ?thesis
      by (simp add: fetch_main_def Let_def nullish_Some strip_timestamp_def)
  qed
qed

lemma fetch_absent:
  assumes e: "\<forall>d. Map_get (memoryStore c) (hd (resolveKeyPath pathlike)) = Some d
                \<longrightarrow> pathCast_get d (tl (resolveKeyPath pathlike)) = Inr None"
      and r: "\<forall>d. table_rows c (hd (resolveKeyPath pathlike)) = Some d
                \<longrightarrow> pathCast_get d (tl (resolveKeyPath pathlike)) = Inr None"
      and m: "\<forall>sch. dataSchema (configuration c) = Some sch \<and> defaults (configuration c)
                \<longrightarrow> pathCast_get (model sch) (tl (resolveKeyPath pathlike)) = Inr None"
  shows "fst (Connection_fetch c pathlike (Boolean b)) = Inr None"
proof -
  let ?k = "hd (resolveKeyPath pathlike)" and ?p = "tl (resolveKeyPath pathlike)"
  obtain c' where fm: "fetch_main c ?k ?p True = (Inr None, c')"
    using fetch_main_absent [OF e r, of True] by (cases "fetch_main c ?k ?p True") simp
  have a: "\<And>d. Map_get (memoryStore c) ?k = Some d \<Longrightarrow> d \<noteq> JNull \<and> pathCast_get d ?p = Inr None"
    using e pathCast_get_None_nonnull by blast
  show ?thesis using fm m a
    by (auto simp: Connection_fetch_def Let_def destructure_def or_default_def
        split: option.splits sum.splits)
qed

lemma push_absent:
  assumes e: "\<forall>d. Map_get (memoryStore c) (hd (resolveKeyPath pathlike)) = Some d
                \<longrightarrow> pathCast_get d (tl (resolveKeyPath pathlike)) = Inr None"
      and r: "\<forall>d. table_rows c (hd (resolveKeyPath pathlike)) = Some d
                \<longrightarrow> pathCast_get d (tl (resolveKeyPath pathlike)) = Inr None"
      and m: "\<forall>sch. dataSchema (configuration c) = Some sch \<and> defaults (configuration c)
                \<longrightarrow> pathCast_get (model sch) (tl (resolveKeyPath pathlike)) = Inr None"
  shows "fst (Connection_push c pathlike values) = Inl TypeError
       \<and> table_rows (snd (Connection_push c pathlike values)) = table_rows c"
proof -
  let ?a = "Boolean (utilityCache (configuration c))"
  obtain c' where f: "Connection_fetch c pathlike ?a = (Inr None, c')"
    using fetch_absent [OF e r m, of "utilityCache (configuration c)"]
    by (cases "Connection_fetch c pathlike ?a") simp
  with Connection_fetch_frame [of c pathlike ?a] have "table_rows c' = table_rows c" by simp
  with f show ?thesis by (simp add: Connection_push_def)
qed

lemma push_default_items:
  assumes cfg: "cacheStrategyController (configuration c) = Managed"
               "\<not> unsafeAssumeCache (configuration c)"
               "defaults (configuration c)"
               "dataSchema (configuration c) = Some \<lparr>model = JObj [(''items'', JArr [])]\<rparr>"
      and new: "table_rows c ''u1'' = None" "\<not> Map_has (memoryStore c) ''u1''"
  shows "fst (Connection_push c ''u1.items'' [JStr ''sword'']) = Inr 1
       \<and> fst (Connection_fetch (snd (Connection_push c ''u1.items'' [JStr ''sword'']))
                ''u1.items'' Omitted) = Inr (Some (JArr [JStr ''sword'']))
       \<and> dataSchema (configuration (snd (Connection_push c ''u1.items'' [JStr ''sword''])))
           = Some \<lparr>model = JObj [(''items'', JArr [JStr ''sword''])]\<rparr>"
proof -
  have g: "Map_get (memoryStore c) ''u1'' = None" using new(2) by (rule Map_get_None)
  define m1 where "m1 = Map_set (memoryStore c) ''u1''
                          (JObj [(''items'', JArr []), (''_timestamp'', JNum (clock c))])"
  define t2 where "t2 = (table_rows c)(''u1'' \<mapsto> JObj [(''items'', JArr [JStr ''sword''])])"
  define m2 where "m2 = Map_set m1 ''u1''
                          (JObj [(''items'', JArr [JStr ''sword'']), (''_timestamp'', JNum (clock c))])"
  define c1 where "c1 = set_model (c\<lparr>memoryStore := m1\<rparr>) (JObj [(''items'', JArr [JStr ''sword''])])"
  have c1: "memoryStore c1 = m1" "table_rows c1 = table_rows c" "clock c1 = clock c"
    "cacheStrategyController (configuration c1) = Managed"
    "\<not> unsafeAssumeCache (configuration c1)" "defaults (configuration c1)"
    "dataSchema (configuration c1) = Some \<lparr>model = JObj [(''items'', JArr [JStr ''sword''])]\<rparr>"
    "utilityCache (configuration c1) = utilityCache (configuration c)"
    "insertionCache (configuration c1) = insertionCache (configuration c)"
    "fetchAll (configuration c1) = fetchAll (configuration c)"
    using cfg by (simp_all add: c1_def set_model_def)
  have m1g: "Map_get m1 ''u1'' = Some (JObj [(''items'', JArr []), (''_timestamp'', JNum (clock c))])"
    by (simp add: m1_def Map_get_Map_set)
  have m1h: "Map_has m1 ''u1''" by (simp add: m1_def)
  have m2g: "Map_get m2 ''u1''
               = Some (JObj [(''items'', JArr [JStr ''sword'']), (''_timestamp'', JNum (clock c))])"
    by (simp add: m2_def Map_get_Map_set)
  have m2h: "Map_has m2 ''u1''" by (simp add: m2_def)
  have fm: "fetch_main c ''u1'' [''items''] True = (Inr None, c)"
    using new g by (simp add: fetch_main_def)
  have fe: "Connection_fetch c ''u1.items'' (Boolean (utilityCache (configuration c)))
              = (Inr (Some (JArr [])), c\<lparr>memoryStore := m1\<rparr>)"
    using cfg new g fm
    by (simp add: Connection_fetch_def patch_def CacheStrategy_patch_def
        set_property_def destructure_def or_default_def Let_def resolve_u1_items m1_def Map_get_def)
  have fd: "fetch_returns_default c ''u1.items'' (Boolean (utilityCache (configuration c)))"
    using cfg fm
    by (simp add: fetch_returns_default_def destructure_def or_default_def Let_def resolve_u1_items)
  have pm: "pushed_into_model (c\<lparr>memoryStore := m1\<rparr>) [''items''] ([] @ [JStr ''sword'']) = c1"
    using cfg by (simp add: pushed_into_model_def c1_def Map_get_def)
  have ex: "Connection_exists c1 ''u1'' Omitted = (Inr True, c1)"
    using c1 m1g m1h
    by (simp add: Connection_exists_def Connection_fetch_def fetch_main_def strip_timestamp_def
        destructure_def or_default_def isDataModel_def Let_def resolve_u1)
  have fk: "Connection_fetch c1 ''u1'' Omitted = (Inr (Some (JObj [(''items'', JArr [])])), c1)"
    using c1 m1g m1h
    by (simp add: Connection_fetch_def fetch_main_def strip_timestamp_def delete_property_def
        Map_delete_def destructure_def or_default_def isDataModel_def Let_def resolve_u1)
  have nd: "\<not> fetch_returns_default c1 ''u1'' Omitted"
    using c1 m1g m1h
    by (simp add: fetch_returns_default_def fetch_main_def strip_timestamp_def
        destructure_def or_default_def isDataModel_def Let_def resolve_u1)
  define c2 where "c2 = c1\<lparr>table_rows := t2, memoryStore := m2\<rparr>"
  have se: "Connection_set c1 ''u1.items'' (JArr [JStr ''sword'']) Omitted = (Inr (), c2)"
    using c1 m1h ex fk nd
    by (simp add: Connection_set_def set_main_def write_through_def patch_def
        CacheStrategy_patch_def set_property_def destructure_def or_default_def Let_def
        resolve_u1_items Map_get_def t2_def m2_def c2_def)
  have pu: "Connection_push c ''u1.items'' [JStr ''sword''] = (Inr 1, c2)"
    using fe fd pm se by (simp add: Connection_push_def resolve_u1_items)
  have c2: "memoryStore c2 = m2" "configuration c2 = configuration c1"
    by (simp_all add: c2_def)
  have fin: "Connection_fetch c2 ''u1.items'' Omitted = (Inr (Some (JArr [JStr ''sword''])), c2)"
    using c1 c2 m2g m2h
    by (simp add: Connection_fetch_def fetch_main_def strip_timestamp_def delete_property_def
        destructure_def or_default_def isDataModel_def Let_def resolve_u1_items Map_get_def)
  from pu fin c2 c1 show ?thesis by simp
qed



section \<open>Set, modify and fetch of one balance\<close>

lemma Map_delete_absent: "\<not> Map_has m k \<Longrightarrow> Map_delete m k = m"
  by (induction m) (auto simp: Map_has_def Map_delete_def)

lemma Map_delete_Map_set: "\<not> Map_has m k \<Longrightarrow> Map_delete (Map_set m k v) k = m"
  by (induction m) (auto simp: Map_has_def Map_delete_def)

lemma Map_has_iff_get: "Map_has m k = (Map_get m k \<noteq> None)"
  by (simp add: Map_has_def Map_get_def map_of_eq_None_iff)

lemma patch_entry:
  assumes "adds_no_key (cacheStrategyController (configuration c))"
  shows "Map_get (memoryStore (patch c k d)) k
           = Some (set_property d ''_timestamp'' (JNum (clock c)))
       \<or> (Map_get (memoryStore c) k = None \<and> Map_get (memoryStore (patch c k d)) k = None)"
proof (cases "cacheStrategyController (configuration c)")
  case Managed
  then show ?thesis by (simp add: patch_def CacheStrategy_patch_def Map_get_Map_set)
next
  case (Restricted maxSize ev)
  with assms have "adds_no_key (Restricted maxSize ev)" by (simp only:)
  then have "\<forall>m k. Map_has (snd (ev m)) k \<longrightarrow> Map_has m k"
    unfolding adds_no_key_def cacheStrategy.case .
  then have ro: "\<And>m k. Map_has (snd (ev m)) k \<Longrightarrow> Map_has m k"
    by blast
  obtain ok m' where ev: "ev (memoryStore c) = (ok, m')" by (cases "ev (memoryStore c)")
  let ?full = "maxSize \<noteq> \<infinity> \<and> maxSize \<le> enat (Map_size (memoryStore c))
                  \<and> \<not> Map_has (memoryStore c) k"
  let ?e = "set_property d ''_timestamp'' (JNum (clock c))"
  show ?thesis
  proof (cases ?full)
    case False
    have "RestrictedCacheStrategy_patch maxSize ev (clock c) k d (memoryStore c)
            = CacheStrategy_patch (clock c) k d (memoryStore c)"
      unfolding RestrictedCacheStrategy_patch_def using False by (rule if_not_P)
    then have "memoryStore (patch c k d) = Map_set (memoryStore c) k ?e"
      using Restricted by (simp add: patch_def CacheStrategy_patch_def)
    then show ?thesis by (simp add: Map_get_Map_set)
  next
    case True
    show ?thesis
    proof (cases ok)
      case True
      have "RestrictedCacheStrategy_patch maxSize ev (clock c) k d (memoryStore c)
            = (case ev (memoryStore c) of
                 (ok, memoryStore') \<Rightarrow>
                   if \<not> ok then memoryStore'
                   else CacheStrategy_patch (clock c) k d memoryStore')"
        unfolding RestrictedCacheStrategy_patch_def using \<open>?full\<close> by (rule if_P)
      with True have "memoryStore (patch c k d) = Map_set m' k ?e"
        using Restricted ev by (simp add: patch_def CacheStrategy_patch_def)
      then show ?thesis by (simp add: Map_get_Map_set)
    next
      case False
      have "RestrictedCacheStrategy_patch maxSize ev (clock c) k d (memoryStore c)
            = (case ev (memoryStore c) of
                 (ok, memoryStore') \<Rightarrow>
                   if \<not> ok then memoryStore'
                   else CacheStrategy_patch (clock c) k d memoryStore')"
        unfolding RestrictedCacheStrategy_patch_def using \<open>?full\<close> by (rule if_P)
      with False have p: "memoryStore (patch c k d) = m'"
        using Restricted ev by (simp add: patch_def)
      from \<open>?full\<close> have n: "Map_get (memoryStore c) k = None" by (simp add: Map_has_iff_get)
      have "\<not> Map_has m' k"
      proof
        assume "Map_has m' k"
        with ev have "Map_has (snd (ev (memoryStore c))) k" by simp
        from ro [OF this] \<open>?full\<close> show False by simp
      qed
      then have "Map_get m' k = None" by (rule Map_get_None)
      with p n show ?thesis by simp
    qed
  qed
qed

lemma in_step_patch:
  assumes "adds_no_key (cacheStrategyController (configuration c))"
      and "table_rows c k = Some (JObj fs)" "\<not> Map_has fs ''_timestamp''"
      and "Map_has (memoryStore c) k \<or> Map_get (memoryStore c) k = None"
  shows "in_step (patch c k (JObj fs)) k fs"
proof -
  have t: "table_rows (patch c k (JObj fs)) k = Some (JObj fs)" using assms(2) by simp
  have k: "clock (patch c k (JObj fs)) = clock c" by simp
  from patch_entry [OF assms(1), of k "JObj fs"]
  have "Map_get (memoryStore (patch c k (JObj fs))) k = None
      \<or> Map_get (memoryStore (patch c k (JObj fs))) k
          = Some (JObj (Map_set fs ''_timestamp'' (JNum (clock c))))"
    by (auto simp: set_property_def)
  with t k assms(3) show ?thesis unfolding in_step_def by simp
qed

lemma Map_has_Map_delete: "\<not> Map_has (Map_delete m k) k"
  by (auto simp: Map_has_def Map_delete_def)

lemma Map_has_Map_delete_other: "k' \<noteq> k \<Longrightarrow> Map_has (Map_delete m k) k' = Map_has m k'"
  by (auto simp: Map_has_def Map_delete_def)

lemma in_step_patch':
  assumes "adds_no_key (cacheStrategyController (configuration c))"
      and "table_rows c k = Some (JObj fs)" "\<not> Map_has fs ''_timestamp''"
  shows "in_step (patch c k (JObj fs)) k fs"
proof -
  have "Map_has (memoryStore c) k \<or> Map_get (memoryStore c) k = None"
    by (cases "Map_get (memoryStore c) k") (simp_all add: Map_has_iff_get)
  from in_step_patch [OF assms this] show ?thesis .
qed

lemma write_in_step:
  assumes ro: "adds_no_key (cacheStrategyController (configuration c))"
      and nt: "\<not> Map_has fs ''_timestamp''"
  shows "\<exists>c'. write_through c k (JObj fs) b = (Inr (), c') \<and> in_step c' k fs
              \<and> configuration c' = configuration c \<and> clock c' = clock c"
proof -
  let ?c = "c\<lparr>table_rows := (table_rows c)(k \<mapsto> JObj fs)\<rparr>"
  have ro': "adds_no_key (cacheStrategyController (configuration ?c))" using ro by simp
  have t: "table_rows ?c k = Some (JObj fs)" by simp
  let ?cond = "b \<or> (case fetchAll (configuration ?c) of None \<Rightarrow> False | Some n \<Rightarrow> 0 < n)
                \<or> Map_has (memoryStore ?c) k"
  show ?thesis
  proof (cases ?cond)
    case True
    then have w: "write_through c k (JObj fs) b = (Inr (), patch ?c k (JObj fs))"
      by (simp add: write_through_def Let_def)
    from in_step_patch' [OF ro' t nt] w show ?thesis by simp
  next
    case False
    then have w: "write_through c k (JObj fs) b = (Inr (), ?c)"
      by (simp add: write_through_def Let_def)
    from False have "Map_get (memoryStore ?c) k = None" by (simp add: Map_has_iff_get)
    with nt have "in_step ?c k fs" by (simp add: in_step_def)
    with w show ?thesis by simp
  qed
qed

lemma fetch_main_in_step:
  assumes st: "in_step c k fs"
      and ro: "adds_no_key (cacheStrategyController (configuration c))"
  shows "\<exists>c'. fetch_main c k [] b = (Inr (Some (JObj fs)), c') \<and> in_step c' k fs
              \<and> configuration c' = configuration c \<and> clock c' = clock c"
    and "s \<noteq> ''_timestamp'' \<Longrightarrow> Map_get fs s = Some v \<Longrightarrow> \<not> isDataModel v \<Longrightarrow>
         \<exists>c'. fetch_main c k [s] b = (Inr (Some v), c') \<and> in_step c' k fs
              \<and> configuration c' = configuration c \<and> clock c' = clock c"
proof -
  from st have t: "table_rows c k = Some (JObj fs)" and nt: "\<not> Map_has fs ''_timestamp''"
    by (simp_all add: in_step_def)
  let ?e = "JObj (Map_set fs ''_timestamp'' (JNum (clock c)))"
  from st consider (miss) "Map_get (memoryStore c) k = None"
    | (hit) "Map_get (memoryStore c) k = Some ?e"
    by (auto simp: in_step_def)
  note cases = this
  have strip: "strip_timestamp (Some (JObj fs)) = Some (JObj fs)"
    "strip_timestamp (Some ?e) = Some (JObj fs)"
    using nt by (simp_all add: strip_timestamp_Some delete_property_def Map_delete_absent
        Map_delete_Map_set)
  let ?c' = "if b \<and> \<not> Map_has (memoryStore c) k then patch c k (JObj fs) else c"
  have st': "in_step ?c' k fs" using st in_step_patch' [OF ro t nt] by simp
  show "\<exists>c'. fetch_main c k [] b = (Inr (Some (JObj fs)), c') \<and> in_step c' k fs
              \<and> configuration c' = configuration c \<and> clock c' = clock c"
  proof (cases rule: cases)
    case miss
    with t strip st' show ?thesis
      by (auto simp: fetch_main_def Let_def)
  next
    case hit
    then have "Map_has (memoryStore c) k" by (simp add: Map_has_iff_get)
    with hit strip st show ?thesis by (simp add: fetch_main_def Let_def)
  qed
  assume s: "s \<noteq> ''_timestamp''" and g: "Map_get fs s = Some v" and v: "\<not> isDataModel v"
  have sv: "strip_timestamp (Some v) = Some v" using v by (simp add: strip_timestamp_def)
  show "\<exists>c'. fetch_main c k [s] b = (Inr (Some v), c') \<and> in_step c' k fs
              \<and> configuration c' = configuration c \<and> clock c' = clock c"
  proof (cases rule: cases)
    case miss
    with t g sv st' show ?thesis
      by (auto simp: fetch_main_def Let_def)
  next
    case hit
    then have "Map_has (memoryStore c) k" by (simp add: Map_has_iff_get)
    with hit g s sv st show ?thesis by (simp add: fetch_main_def Let_def Map_get_Map_set)
  qed
qed

lemma set_in_step:
  assumes st: "in_step c k fs"
      and ro: "adds_no_key (cacheStrategyController (configuration c))"
      and k1: "dataSchema (configuration c) = None \<or> \<not> defaults (configuration c)"
      and k2: "\<not> unsafeAssumeCache (configuration c)"
      and p: "resolveKeyPath p = [k, s]" and s: "s \<noteq> ''_timestamp''"
  shows "\<exists>c'. Connection_set c p v Omitted = (Inr (), c') \<and> in_step c' k (Map_set fs s v)
              \<and> configuration c' = configuration c \<and> clock c' = clock c"
proof -
  have rk: "resolveKeyPath k = [k]" using resolve_key [of p] p by simp
  from fetch_main_in_step(1) [OF st ro, of True] obtain c1 where
    f: "fetch_main c k [] True = (Inr (Some (JObj fs)), c1)" and st1: "in_step c1 k fs"
    and cf1: "configuration c1 = configuration c" and ck1: "clock c1 = clock c" by blast
  from k1 k2 f rk have fe: "Connection_fetch c k Omitted = (Inr (Some (JObj fs)), c1)"
    by (simp add: Connection_fetch_plain)
  from k1 have nd: "\<not> fetch_returns_default c k Omitted"
    by (auto simp: fetch_returns_default_def Let_def destructure_def or_default_def)
  from st have "\<not> Map_has fs ''_timestamp''" by (simp add: in_step_def)
  with s have nt: "\<not> Map_has (Map_set fs s v) ''_timestamp''" by simp
  from ro cf1 have ro1: "adds_no_key (cacheStrategyController (configuration c1))" by simp
  from write_in_step [OF ro1 nt, of k "insertionCache (configuration c)"] obtain c2 where
    w: "write_through c1 k (JObj (Map_set fs s v)) (insertionCache (configuration c)) = (Inr (), c2)"
    and st2: "in_step c2 k (Map_set fs s v)"
    and cf2: "configuration c2 = configuration c1" and ck2: "clock c2 = clock c1" by blast
  from k1 p fe nd w have "Connection_set c p v Omitted = (Inr (), c2)"
    by (simp add: Connection_set_plain set_main_def)
  with st2 cf1 cf2 ck1 ck2 show ?thesis by simp
qed

lemma first_set_in_step:
  assumes t: "table_rows c k = None"
      and e: "Map_get (memoryStore c) k = None \<or> Map_get (memoryStore c) k = Some JNull
              \<or> (\<exists>fs. Map_get (memoryStore c) k = Some (JObj fs))"
      and ro: "adds_no_key (cacheStrategyController (configuration c))"
      and k1: "dataSchema (configuration c) = None \<or> \<not> defaults (configuration c)"
      and k2: "\<not> unsafeAssumeCache (configuration c)"
      and p: "resolveKeyPath p = [k, s]" and s: "s \<noteq> ''_timestamp''"
  shows "\<exists>c' fs. Connection_set c p v Omitted = (Inr (), c') \<and> in_step c' k fs
              \<and> Map_get fs s = Some v
              \<and> configuration c' = configuration c \<and> clock c' = clock c"
proof -
  have rk: "resolveKeyPath k = [k]" using resolve_key [of p] p by simp
  have "\<exists>fs0. fetch_main c k [] True
                 = (if nullish (Map_get (memoryStore c) k) then Inr None
                    else Inr (Some (JObj fs0)), c)
              \<and> \<not> Map_has fs0 ''_timestamp''
              \<and> (nullish (Map_get (memoryStore c) k) \<longrightarrow> fs0 = [])"
    using e
  proof (elim disjE exE)
    assume "Map_get (memoryStore c) k = None"
    with t show ?thesis by (simp add: fetch_main_def Map_has_def)
  next
    assume "Map_get (memoryStore c) k = Some JNull"
    with t show ?thesis by (simp add: fetch_main_def Map_has_def)
  next
    fix fs assume g: "Map_get (memoryStore c) k = Some (JObj fs)"
    from fetch_main_hit(2) [OF g, of True] have
      "fetch_main c k [] True = (Inr (Some (JObj (Map_delete fs ''_timestamp''))), c)"
      by (simp add: delete_property_def)
    with g show ?thesis by (simp add: Map_has_Map_delete)
  qed
  then obtain fs0 where
    f: "fetch_main c k [] True
          = (if nullish (Map_get (memoryStore c) k) then Inr None
             else Inr (Some (JObj fs0)), c)"
    and nt0: "\<not> Map_has fs0 ''_timestamp''"
    and n0: "nullish (Map_get (memoryStore c) k) \<longrightarrow> fs0 = []" by blast
  from k1 k2 f rk have fe: "Connection_fetch c k Omitted
          = (if nullish (Map_get (memoryStore c) k) then Inr None
             else Inr (Some (JObj fs0)), c)"
    by (simp add: Connection_fetch_plain)
  from k1 have nd: "\<not> fetch_returns_default c k Omitted"
    by (auto simp: fetch_returns_default_def Let_def destructure_def or_default_def)
  from nt0 s have nt: "\<not> Map_has (Map_set fs0 s v) ''_timestamp''" by simp
  from write_in_step [OF ro nt, of k "insertionCache (configuration c)"] obtain c2 where
    w: "write_through c k (JObj (Map_set fs0 s v)) (insertionCache (configuration c)) = (Inr (), c2)"
    and st2: "in_step c2 k (Map_set fs0 s v)"
    and cf2: "configuration c2 = configuration c" and ck2: "clock c2 = clock c" by blast
  have "Connection_set c p v Omitted = (Inr (), c2)"
  proof (cases "nullish (Map_get (memoryStore c) k)")
    case True
    with n0 have z: "fs0 = []" by simp
    with True k1 p fe nd w z show ?thesis
      by (simp add: Connection_set_plain set_main_def)
  next
    case False
    with k1 p fe nd w show ?thesis
      by (simp add: Connection_set_plain set_main_def)
  qed
  with st2 cf2 ck2 show ?thesis by (auto simp: Map_get_Map_set)
qed

lemma adds_no_key_evict_first: "adds_no_key (Restricted n evict_first)"
  by (force simp: adds_no_key_def evict_first_def Map_has_def split: list.splits)




section \<open>A write whose admission to the cache is refused\<close>

lemma pathCast_set_DataModel:
  "pathCast_set frame path item = Inr frame' \<Longrightarrow> isDataModel frame'"
  by (induction frame path item rule: pathCast_set.induct)
     (auto simp: isDataModel_def split: if_splits sum.splits)

lemma set_model_frame [simp]:
  "cacheStrategyController (configuration (set_model c m)) = cacheStrategyController (configuration c)"
  "memoryStore (set_model c m) = memoryStore c"
  "table_rows (set_model c m) = table_rows c"
  by (simp_all add: set_model_def)

lemma Connection_fetch_refused:
  assumes "cacheStrategyController (configuration c) = Restricted (enat N) ev"
      and "N \<le> Map_size (memoryStore c)"
      and "\<not> Map_has (memoryStore c) (hd (resolveKeyPath p))"
      and "ev (memoryStore c) = (False, memoryStore c)"
  shows "snd (Connection_fetch c p a) = c"
proof -
  let ?k = "hd (resolveKeyPath p)" and ?p = "tl (resolveKeyPath p)"
  let ?b = "or_default (opt_cache (destructure a)) True"
  obtain r c' where m: "fetch_main c ?k ?p ?b = (r, c')" by (cases "fetch_main c ?k ?p ?b")
  with fetch_main_refused(1) [OF assms, of ?p ?b] have c': "c' = c" by simp
  from m c' patch_refused' [OF assms] show ?thesis
    by (simp add: Connection_fetch_def Let_def split: option.splits sum.splits)
qed

lemma Connection_exists_refused:
  assumes "cacheStrategyController (configuration c) = Restricted (enat N) ev"
      and "N \<le> Map_size (memoryStore c)"
      and "\<not> Map_has (memoryStore c) (hd (resolveKeyPath p))"
      and "ev (memoryStore c) = (False, memoryStore c)"
  shows "snd (Connection_exists c p a) = c"
proof -
  let ?a = "Object \<lparr>opt_cache = Some (or_default (opt_cache (destructure a)) (utilityCache (configuration c))), opt_assumeCache = None, opt_defaults = None\<rparr>"
  obtain r c' where f: "Connection_fetch c p ?a = (r, c')" by (cases "Connection_fetch c p ?a")
  with Connection_fetch_refused [OF assms, of ?a] show ?thesis
    by (cases r) (simp_all add: Connection_exists_def Let_def)
qed

lemma set_main_refused:
  assumes R: "cacheStrategyController (configuration c) = Restricted (enat N) ev"
      "N \<le> Map_size (memoryStore c)"
      "\<not> Map_has (memoryStore c) (hd (resolveKeyPath p))"
      "ev (memoryStore c) = (False, memoryStore c)"
  shows "(\<exists>e. set_main c p d b = (Inl e, c))
         \<or> (\<exists>written c'. set_main c p d b = (Inr (), c')
               \<and> memoryStore c' = memoryStore c
               \<and> table_rows c' = (table_rows c)(hd (resolveKeyPath p) \<mapsto> written)
               \<and> pathCast_get written (tl (resolveKeyPath p)) = Inr (Some d))"
proof (cases "tl (resolveKeyPath p) = []")
  case True
  show ?thesis
  proof (cases "isDataModel d")
    case dm: True
    with True write_through_refused [OF R, of d b] show ?thesis
      by (simp add: set_main_def Let_def)
  next
    case False
    with True show ?thesis by (simp add: set_main_def Let_def)
  qed
next
  case False
  let ?k = "hd (resolveKeyPath p)" and ?p = "tl (resolveKeyPath p)"
  have R': "\<not> Map_has (memoryStore c) (hd (resolveKeyPath ?k))" using R(3) by simp
  obtain r c1 where f: "Connection_fetch c ?k Omitted = (r, c1)"
    by (cases "Connection_fetch c ?k Omitted")
  with Connection_fetch_refused [OF R(1,2) R' R(4), of Omitted] have c1: "c1 = c" by simp
  show ?thesis
  proof (cases r)
    case (Inl e)
    with f c1 False show ?thesis by (simp add: set_main_def Let_def)
  next
    case (Inr v)
    let ?old = "case v of None \<Rightarrow> JObj [] | Some documentOld \<Rightarrow>
                  if documentOld = JNull then JObj [] else documentOld"
    show ?thesis
    proof (cases "pathCast_set ?old ?p d")
      case (Inl e)
      with Inr f c1 False show ?thesis by (simp add: set_main_def Let_def)
    next
      case w: (Inr written)
      let ?c = "if fetch_returns_default c ?k Omitted then set_model c written else c"
      have Rc: "cacheStrategyController (configuration ?c) = Restricted (enat N) ev"
        "N \<le> Map_size (memoryStore ?c)" "\<not> Map_has (memoryStore ?c) ?k"
        "ev (memoryStore ?c) = (False, memoryStore ?c)"
        using R by simp_all
      from write_through_refused [OF Rc, of written b]
      have "write_through ?c ?k written b
              = (Inr (), ?c\<lparr>table_rows := (table_rows ?c)(?k \<mapsto> written)\<rparr>)" .
      with Inr f c1 False w have
        s: "set_main c p d b = (Inr (), ?c\<lparr>table_rows := (table_rows ?c)(?k \<mapsto> written)\<rparr>)"
        by (simp add: set_main_def Let_def)
      from pathCast_set_get [OF w False]
      have g: "pathCast_get written ?p = Inr (Some d)" .
      let ?c' = "?c\<lparr>table_rows := (table_rows ?c)(?k \<mapsto> written)\<rparr>"
      have ms: "memoryStore ?c' = memoryStore c" by simp
      have tr: "table_rows ?c' = (table_rows c)(?k \<mapsto> written)" by simp
      from s ms tr g show ?thesis by blast
    qed
  qed
qed

lemma Connection_set_refused:
  assumes R: "cacheStrategyController (configuration c) = Restricted (enat N) ev"
      "N \<le> Map_size (memoryStore c)"
      "\<not> Map_has (memoryStore c) (hd (resolveKeyPath p))"
      "ev (memoryStore c) = (False, memoryStore c)"
  shows "(\<exists>e. Connection_set c p d Omitted = (Inl e, c))
         \<or> (\<exists>written c'. Connection_set c p d Omitted = (Inr (), c')
               \<and> memoryStore c' = memoryStore c
               \<and> table_rows c' = (table_rows c)(hd (resolveKeyPath p) \<mapsto> written)
               \<and> (pathCast_get written (tl (resolveKeyPath p)) = Inr (Some d)
                  \<or> (unsafeAssumeCache (configuration c) \<and> defaults (configuration c)
                     \<and> dataSchema (configuration c) \<noteq> None \<and> tl (resolveKeyPath p) = [])))"
proof (cases "dataSchema (configuration c) = None \<or> \<not> defaults (configuration c)")
  case True
  with set_main_refused [OF R, of d "insertionCache (configuration c)"] show ?thesis
    by (auto simp: Connection_set_plain)
next
  case False
  then obtain sch where sch: "dataSchema (configuration c) = Some sch"
    and dflt: "defaults (configuration c)" by auto
  let ?k = "hd (resolveKeyPath p)" and ?p = "tl (resolveKeyPath p)"
  let ?b = "insertionCache (configuration c)"
  have R': "\<not> Map_has (memoryStore c) (hd (resolveKeyPath ?k))" using R(3) by simp
  have Rk: "\<not> Map_has (memoryStore c) (hd (resolveKeyPath ?k))" using R(3) by simp
  obtain r c1 where ex: "Connection_exists c ?k Omitted = (r, c1)"
    by (cases "Connection_exists c ?k Omitted")
  with Connection_exists_refused [OF R(1,2) R' R(4), of Omitted] have c1: "c1 = c" by simp
  have unf: "Connection_set c p d Omitted =
      (case r of Inl e \<Rightarrow> (Inl e, c)
       | Inr found \<Rightarrow> if found then set_main c p d ?b
           else if ?p \<noteq> []
           then (case pathCast_set (model sch) ?p d of
                   Inl e \<Rightarrow> (Inl e, c)
                 | Inr model' \<Rightarrow> set_main c ?k model' ?b)
           else set_main c ?k (model sch) ?b)"
    using sch dflt ex c1
    by (simp add: Connection_set_def Let_def destructure_def or_default_def split: sum.splits)
  show ?thesis
  proof (cases r)
    case (Inl e)
    with unf show ?thesis by simp
  next
    case (Inr found)
    show ?thesis
    proof (cases found)
      case True
      with Inr unf set_main_refused [OF R, of d ?b] show ?thesis by auto
    next
      case nf: False
      show ?thesis
      proof (cases "?p = []")
        case False
        show ?thesis
        proof (cases "pathCast_set (model sch) ?p d")
          case (Inl e)
          with Inr nf False unf show ?thesis by simp
        next
          case m: (Inr model')
          from pathCast_set_DataModel [OF m] have dm: "isDataModel model'" .
          from pathCast_set_get [OF m False] have g: "pathCast_get model' ?p = Inr (Some d)" .
          from dm write_through_refused [OF R, of model' ?b]
          have "set_main c ?k model' ?b
                  = (Inr (), c\<lparr>table_rows := (table_rows c)(?k \<mapsto> model')\<rparr>)"
            by (simp add: set_main_def Let_def)
          with Inr nf False m unf have
            s: "Connection_set c p d Omitted
                  = (Inr (), c\<lparr>table_rows := (table_rows c)(?k \<mapsto> model')\<rparr>)" by simp
          let ?c' = "c\<lparr>table_rows := (table_rows c)(?k \<mapsto> model')\<rparr>"
          have ms: "memoryStore ?c' = memoryStore c" by simp
          have tr: "table_rows ?c' = (table_rows c)(?k \<mapsto> model')" by simp
          from s ms tr g show ?thesis by blast
        qed
      next
        case True
        show ?thesis
        proof (cases "unsafeAssumeCache (configuration c)")
          case ua: True
          from set_main_refused [OF R(1,2) Rk R(4), of "model sch" ?b]
          have "(\<exists>e. set_main c ?k (model sch) ?b = (Inl e, c))
              \<or> (\<exists>written c'. set_main c ?k (model sch) ?b = (Inr (), c')
                    \<and> memoryStore c' = memoryStore c
                    \<and> table_rows c' = (table_rows c)(?k \<mapsto> written))"
            by auto
          with Inr nf True unf ua dflt sch show ?thesis by auto
        next
          case nua: False
          from exists_key_defaults [OF sch dflt nua ex] Inr nf
          have "\<not> truthy (Some (model sch))" by simp
          then have "\<not> isDataModel (model sch)" by (rule not_truthy_not_DataModel)
          then have "set_main c ?k (model sch) ?b = (Inl TypeError, c)"
            by (rule set_main_key_scalar)
          with Inr nf True unf show ?thesis by simp
        qed
      qed
    qed
  qed
qed

lemma set_root_container_returns:
  assumes root: "tl (resolveKeyPath p) = []" and d: "isDataModel d"
      and cfg: "dataSchema (configuration c) = None \<or> \<not> defaults (configuration c)
                \<or> (\<forall>sch. dataSchema (configuration c) = Some sch \<longrightarrow> isDataModel (model sch))"
  shows "fst (Connection_set c p d Omitted) = Inr ()"
proof (cases "dataSchema (configuration c) = None \<or> \<not> defaults (configuration c)")
  case True
  with root d show ?thesis
    by (simp add: Connection_set_plain set_main_def write_through_def Let_def)
next
  case False
  then obtain sch where sch: "dataSchema (configuration c) = Some sch"
    and dflt: "defaults (configuration c)" by auto
  with cfg have m: "isDataModel (model sch)" by simp
  let ?k = "hd (resolveKeyPath p)"
  let ?a = "Object \<lparr>opt_cache = Some (or_default (opt_cache (destructure Omitted))
                      (utilityCache (configuration c))),
                    opt_assumeCache = None, opt_defaults = None\<rparr>"
  obtain v c1 where fe: "Connection_fetch c ?k ?a = (Inr v, c1)"
    using Connection_fetch_root [of ?k c ?a] by (cases "Connection_fetch c ?k ?a") auto
  then have "Connection_exists c ?k Omitted = (Inr (v \<noteq> None), c1)"
    by (simp add: Connection_exists_def Let_def)
  then obtain found where ex: "Connection_exists c ?k Omitted = (Inr found, c1)" by blast
  from root d have 1: "fst (set_main c1 p d b) = Inr ()" for b
    by (simp add: set_main_def write_through_def Let_def)
  from m have 2: "fst (set_main c1 ?k (model sch) b) = Inr ()" for b
    by (simp add: set_main_def write_through_def Let_def)
  from sch dflt ex root 1 2 show ?thesis
    by (simp add: Connection_set_def Let_def destructure_def or_default_def)
qed

lemma set_nested_new_returns:
  assumes R: "cacheStrategyController (configuration c) = Restricted (enat N) ev"
      "N \<le> Map_size (memoryStore c)"
      "\<not> Map_has (memoryStore c) (hd (resolveKeyPath p))"
      "ev (memoryStore c) = (False, memoryStore c)"
      and nd: "dataSchema (configuration c) = None \<or> \<not> defaults (configuration c)"
      and nested: "tl (resolveKeyPath p) \<noteq> []" and row: "table_rows c (hd (resolveKeyPath p)) = None"
  shows "fst (Connection_set c p d Omitted) = Inr ()"
proof -
  let ?k = "hd (resolveKeyPath p)" and ?p = "tl (resolveKeyPath p)"
  from fetch_key_refused [OF R nd] row have f: "Connection_fetch c ?k Omitted = (Inr None, c)"
    by auto
  from pathCast_set_empty_object [OF nested, of d] obtain w where
    w: "pathCast_set (JObj []) ?p d = Inr w" by blast
  from nd f w nested show ?thesis
    by (simp add: Connection_set_plain set_main_def write_through_def Let_def)
qed

lemma set_refused_parts:
  assumes "cacheStrategyController (configuration c) = Restricted (enat N) ev"
      and "N \<le> Map_size (memoryStore c)"
      and "\<not> Map_has (memoryStore c) (hd (resolveKeyPath pathlike))"
      and "ev (memoryStore c) = (False, memoryStore c)"
  shows "write_through c (hd (resolveKeyPath pathlike)) document cache
           = (Inr (), c\<lparr>table_rows := (table_rows c)(hd (resolveKeyPath pathlike) \<mapsto> document)\<rparr>)"
    and "memoryStore (snd (Connection_set c pathlike document Omitted)) = memoryStore c"
    and "\<forall>e. fst (Connection_set c pathlike document Omitted) = Inl e
           \<longrightarrow> snd (Connection_set c pathlike document Omitted) = c"
    and "fst (Connection_set c pathlike document Omitted) = Inr ()
         \<and> \<not> (unsafeAssumeCache (configuration c) \<and> defaults (configuration c)
               \<and> dataSchema (configuration c) \<noteq> None \<and> tl (resolveKeyPath pathlike) = [])
         \<longrightarrow> (\<exists>written. table_rows (snd (Connection_set c pathlike document Omitted))
                            = (table_rows c)(hd (resolveKeyPath pathlike) \<mapsto> written)
                        \<and> pathCast_get written (tl (resolveKeyPath pathlike))
                            = Inr (Some document))"
    and "tl (resolveKeyPath pathlike) = [] \<and> isDataModel document
         \<and> (dataSchema (configuration c) = None \<or> \<not> defaults (configuration c)
            \<or> (\<forall>sch. dataSchema (configuration c) = Some sch \<longrightarrow> isDataModel (model sch)))
         \<longrightarrow> fst (Connection_set c pathlike document Omitted) = Inr ()"
    and "tl (resolveKeyPath pathlike) \<noteq> [] \<and> table_rows c (hd (resolveKeyPath pathlike)) = None
         \<and> (dataSchema (configuration c) = None \<or> \<not> defaults (configuration c))
         \<longrightarrow> fst (Connection_set c pathlike document Omitted) = Inr ()"
proof -
  show "write_through c (hd (resolveKeyPath pathlike)) document cache
           = (Inr (), c\<lparr>table_rows := (table_rows c)(hd (resolveKeyPath pathlike) \<mapsto> document)\<rparr>)"
    by (rule write_through_refused [OF assms])
  note d = Connection_set_refused [OF assms, of document]
  from d show "memoryStore (snd (Connection_set c pathlike document Omitted)) = memoryStore c"
    by auto
  from d show "\<forall>e. fst (Connection_set c pathlike document Omitted) = Inl e
           \<longrightarrow> snd (Connection_set c pathlike document Omitted) = c"
    by auto
  from d show "fst (Connection_set c pathlike document Omitted) = Inr ()
         \<and> \<not> (unsafeAssumeCache (configuration c) \<and> defaults (configuration c)
               \<and> dataSchema (configuration c) \<noteq> None \<and> tl (resolveKeyPath pathlike) = [])
         \<longrightarrow> (\<exists>written. table_rows (snd (Connection_set c pathlike document Omitted))
                            = (table_rows c)(hd (resolveKeyPath pathlike) \<mapsto> written)
                        \<and> pathCast_get written (tl (resolveKeyPath pathlike))
                            = Inr (Some document))"
    by auto
  show "tl (resolveKeyPath pathlike) = [] \<and> isDataModel document
         \<and> (dataSchema (configuration c) = None \<or> \<not> defaults (configuration c)
            \<or> (\<forall>sch. dataSchema (configuration c) = Some sch \<longrightarrow> isDataModel (model sch)))
         \<longrightarrow> fst (Connection_set c pathlike document Omitted) = Inr ()"
    using set_root_container_returns [of pathlike document c] by blast
  show "tl (resolveKeyPath pathlike) \<noteq> [] \<and> table_rows c (hd (resolveKeyPath pathlike)) = None
         \<and> (dataSchema (configuration c) = None \<or> \<not> defaults (configuration c))
         \<longrightarrow> fst (Connection_set c pathlike document Omitted) = Inr ()"
    using set_nested_new_returns [OF assms, of document] by blast
qed




end
